theory Spec2Isabelle
  imports Main "HOL-Library.Word"
begin

unbundle bit_operations_syntax

section \<open>The compact string cell of xs.c\<close>

text \<open>
  The C type \<open>xs\<close> is a 16-byte union with three views: \<open>char data[16]\<close>; fifteen
  filler bytes followed by one byte of bit-fields (\<open>space_left : 4\<close>, \<open>is_ptr : 1\<close>,
  \<open>is_large_string : 1\<close>, \<open>flag2\<close>, \<open>flag3\<close>); and a pointer followed by one 64-bit
  unit holding \<open>size : 54\<close> and \<open>capacity : 6\<close>.  The source relies on the views
  overlapping ("use the last byte as a null terminator and to store flags", "the last 4
  bits are important flags"), so the cell is modelled as its 16 bytes, and every field
  is read from and written to those bytes with the layout of the x86-64 System V ABI
  (little endian, bit-fields allocated from the least significant bit):
  \<^item> bytes 0..7: \<open>ptr\<close>;
  \<^item> bytes 8..13 and the low six bits of byte 14: \<open>size\<close>;
  \<^item> the high two bits of byte 14 and the low four bits of byte 15: \<open>capacity\<close>;
  \<^item> the low four bits of byte 15: \<open>space_left\<close>; bit 4: \<open>is_ptr\<close>; bit 5:
    \<open>is_large_string\<close>.
  Values of type \<open>size_t\<close> are natural numbers, with the wrap-around at \<open>2 ^ 64\<close>
  written out where a subtraction or a bit-field store can wrap.
\<close>

type_synonym byte = "8 word"
type_synonym xs = "byte list"



definition STACK_SIZE :: nat where
  "STACK_SIZE = 15"

definition LARGE_STRING_LEN :: nat where
  "LARGE_STRING_LEN = 256"

text \<open>Little-endian encoding of a number in \<open>k\<close> bytes, and decoding.\<close>

fun le_bytes :: "nat \<Rightarrow> nat \<Rightarrow> byte list" where
  "le_bytes 0 n = []"
| "le_bytes (Suc k) n = of_nat n # le_bytes k (n div 256)"

fun le_nat :: "byte list \<Rightarrow> nat" where
  "le_nat [] = 0"
| "le_nat (b # bs) = unat b + 256 * le_nat bs"

text \<open>Unsigned 64-bit subtraction \<open>a - b\<close>, for \<open>a\<close> and \<open>b\<close> below \<open>2 ^ 64\<close>.\<close>

definition sub64 :: "nat \<Rightarrow> nat \<Rightarrow> nat" where
  "sub64 a b = (2 ^ 64 + a - b) mod 2 ^ 64"

subsection \<open>Fields\<close>

definition xs_is_ptr :: "xs \<Rightarrow> bool" where
  "xs_is_ptr x = bit (x ! 15) 4"

definition xs_is_large_string :: "xs \<Rightarrow> bool" where
  "xs_is_large_string x = bit (x ! 15) 5"

definition space_left :: "xs \<Rightarrow> nat" where
  "space_left x = unat (x ! 15 AND 15)"

definition size_field :: "xs \<Rightarrow> nat" where
  "size_field x = le_nat (take 6 (drop 8 x)) + 2 ^ 48 * unat (x ! 14 AND 63)"

definition capacity_field :: "xs \<Rightarrow> nat" where
  "capacity_field x = unat (drop_bit 6 (x ! 14)) + 4 * unat (x ! 15 AND 15)"

definition ptr_field :: "xs \<Rightarrow> nat" where
  "ptr_field x = le_nat (take 8 x)"

definition set_space_left :: "xs \<Rightarrow> nat \<Rightarrow> xs" where
  "set_space_left x v = x[15 := (x ! 15 AND 240) OR (of_nat v AND 15)]"

definition set_is_ptr :: "xs \<Rightarrow> bool \<Rightarrow> xs" where
  "set_is_ptr x b = x[15 := (if b then set_bit 4 (x ! 15) else unset_bit 4 (x ! 15))]"

definition set_is_large_string :: "xs \<Rightarrow> bool \<Rightarrow> xs" where
  "set_is_large_string x b = x[15 := (if b then set_bit 5 (x ! 15) else unset_bit 5 (x ! 15))]"

definition set_size_field :: "xs \<Rightarrow> nat \<Rightarrow> xs" where
  "set_size_field x s =
     take 8 x @ le_bytes 6 s @ [(x ! 14 AND 192) OR (of_nat (s div 2 ^ 48) AND 63)] @ drop 15 x"

definition set_capacity_field :: "xs \<Rightarrow> nat \<Rightarrow> xs" where
  "set_capacity_field x k =
     x[14 := (x ! 14 AND 63) OR push_bit 6 (of_nat k AND 3),
       15 := (x ! 15 AND 240) OR (drop_bit 2 (of_nat k) AND 15)]"

definition set_ptr_field :: "xs \<Rightarrow> nat \<Rightarrow> xs" where
  "set_ptr_field x p = le_bytes 8 p @ drop 8 x"

subsection \<open>Memory\<close>

text \<open>
  The heap maps the address of a live block to its size and contents.  \<open>malloc\<close> hands
  out the address \<open>fresh\<close>; a request larger than \<open>limit\<close> fails with the null
  pointer 0, as the C library allows.  The contents of a new block are unspecified
  (\<open>junk\<close>).  The source never tests what \<open>malloc\<close> returns; an access through a
  pointer that has no live block, or beyond a block or the 16-byte cell, is a fault, and
  so is \<open>__builtin_clz(0)\<close>, whose result is undefined.
\<close>

datatype fault =
  Clz_zero | Null_deref | Dangling | Out_of_bounds | Invalid_free | Static_assert_failed

record heap =
  blocks :: "nat \<Rightarrow> (64 word \<times> (nat \<Rightarrow> byte)) option"
  fresh :: nat
  limit :: nat
  junk :: "nat \<Rightarrow> byte"

datatype loc = Cell nat | Mem nat nat

fun loc_add :: "loc \<Rightarrow> nat \<Rightarrow> loc" where
  "loc_add (Cell off) k = Cell (off + k)"
| "loc_add (Mem a off) k = Mem a (off + k)"

definition bnd :: "fault + 'a \<Rightarrow> ('a \<Rightarrow> fault + 'b) \<Rightarrow> fault + 'b" where
  "bnd m f = (case m of Inl e \<Rightarrow> Inl e | Inr v \<Rightarrow> f v)"

definition malloc :: "heap \<Rightarrow> nat \<Rightarrow> heap \<times> nat" where
  "malloc h n =
     (if n \<le> limit h \<and> 0 < fresh h \<and> fresh h < 2 ^ 64
      then (h\<lparr>blocks := (blocks h)(fresh h \<mapsto> (of_nat n, junk h)), fresh := fresh h + 1\<rparr>,
            fresh h)
      else (h, 0))"

definition free :: "heap \<Rightarrow> nat \<Rightarrow> fault + heap" where
  "free h p =
     (if p = 0 then Inr h
      else (case blocks h p of
              None \<Rightarrow> Inl Invalid_free
            | Some b \<Rightarrow> Inr (h\<lparr>blocks := (blocks h)(p := None)\<rparr>)))"

text \<open>Reading \<open>n\<close> bytes at a location; a \<open>Cell\<close> location is relative to the cell \<open>x\<close>.\<close>

definition load :: "heap \<Rightarrow> xs \<Rightarrow> loc \<Rightarrow> nat \<Rightarrow> fault + byte list" where
  "load h x l n =
     (case l of
        Cell off \<Rightarrow>
          if off + n \<le> 16 then Inr (take n (drop off x)) else Inl Out_of_bounds
      | Mem a off \<Rightarrow>
          (case blocks h a of
             None \<Rightarrow> Inl (if a = 0 then Null_deref else Dangling)
           | Some (sz, c) \<Rightarrow>
               if off + n \<le> unat sz then Inr (map c [off..<off + n])
               else Inl Out_of_bounds))"

definition write_at :: "nat \<Rightarrow> byte list \<Rightarrow> byte list \<Rightarrow> byte list" where
  "write_at off bs x = take off x @ bs @ drop (off + length bs) x"

definition write_fun :: "nat \<Rightarrow> byte list \<Rightarrow> (nat \<Rightarrow> byte) \<Rightarrow> nat \<Rightarrow> byte" where
  "write_fun off bs c = (\<lambda>i. if off \<le> i \<and> i < off + length bs then bs ! (i - off) else c i)"

definition store :: "heap \<Rightarrow> xs \<Rightarrow> loc \<Rightarrow> byte list \<Rightarrow> fault + heap \<times> xs" where
  "store h x l bs =
     (case l of
        Cell off \<Rightarrow>
          if off + length bs \<le> 16 then Inr (h, write_at off bs x) else Inl Out_of_bounds
      | Mem a off \<Rightarrow>
          (case blocks h a of
             None \<Rightarrow> Inl (if a = 0 then Null_deref else Dangling)
           | Some (sz, c) \<Rightarrow>
               if off + length bs \<le> unat sz
               then Inr (h\<lparr>blocks := (blocks h)(a \<mapsto> (sz, write_fun off bs c))\<rparr>, x)
               else Inl Out_of_bounds))"

text \<open>The \<open>int\<close> at the start of a block: the reference count of a large string.\<close>

definition read_int :: "heap \<Rightarrow> nat \<Rightarrow> fault + 32 word" where
  "read_int h a = bnd (load h [] (Mem a 0) 4) (\<lambda>bs. Inr (of_nat (le_nat bs)))"

definition write_int :: "heap \<Rightarrow> nat \<Rightarrow> 32 word \<Rightarrow> fault + heap" where
  "write_int h a v = bnd (store h [] (Mem a 0) (le_bytes 4 (unat v))) (\<lambda>(h', _). Inr h')"

text \<open>A C string argument is the bytes at the pointer; \<open>strlen\<close> stops at the first 0.\<close>

definition strlen :: "byte list \<Rightarrow> nat" where
  "strlen p = length (takeWhile (\<lambda>b. b \<noteq> 0) p)"

subsection \<open>Accessors\<close>

definition xs_size :: "xs \<Rightarrow> nat" where
  "xs_size x = (if xs_is_ptr x then size_field x else STACK_SIZE - space_left x)"

definition xs_set_size :: "xs \<Rightarrow> nat \<Rightarrow> xs" where
  "xs_set_size x s =
     (if \<not> xs_is_ptr x then set_space_left x (sub64 STACK_SIZE s mod 16)
      else set_size_field x (s mod 2 ^ 54))"

definition xs_data :: "xs \<Rightarrow> loc" where
  "xs_data x =
     (if \<not> xs_is_ptr x then Cell 0
      else if xs_is_large_string x then Mem (ptr_field x) 4
      else Mem (ptr_field x) 0)"

definition xs_capacity :: "xs \<Rightarrow> nat" where
  "xs_capacity x = (if xs_is_ptr x then 2 ^ capacity_field x - 1 else 15)"

definition xs_set_refcnt :: "heap \<Rightarrow> xs \<Rightarrow> 32 word \<Rightarrow> fault + heap" where
  "xs_set_refcnt h x val = write_int h (ptr_field x) val"

definition xs_inc_refcnt :: "heap \<Rightarrow> xs \<Rightarrow> fault + heap" where
  "xs_inc_refcnt h x =
     (if xs_is_large_string x
      then bnd (read_int h (ptr_field x)) (\<lambda>r. write_int h (ptr_field x) (r + 1))
      else Inr h)"

definition xs_dec_refcnt :: "heap \<Rightarrow> xs \<Rightarrow> fault + heap \<times> 32 word" where
  "xs_dec_refcnt h x =
     (if \<not> xs_is_large_string x then Inr (h, 0)
      else bnd (read_int h (ptr_field x)) (\<lambda>r.
           bnd (write_int h (ptr_field x) (r - 1)) (\<lambda>h'. Inr (h', r - 1))))"

definition xs_get_refcnt :: "heap \<Rightarrow> xs \<Rightarrow> fault + 32 word" where
  "xs_get_refcnt h x =
     (if \<not> xs_is_large_string x then Inr 0 else read_int h (ptr_field x))"

text \<open>
  The compound literal initialises the bit-field view: \<open>space_left = 15\<close>, both flags
  0, and everything not named (the filler, \<open>flag2\<close>, \<open>flag3\<close>) zero.
\<close>

definition xs_literal_empty :: xs where
  "xs_literal_empty = [0, 0, 0, 0, 0, 0, 0, 0, 0, 0, 0, 0, 0, 0, 0, 15]"

text \<open>\<open>__builtin_clz\<close>: the number of leading zero bits; undefined at 0.\<close>

fun clz_from :: "nat \<Rightarrow> 32 word \<Rightarrow> nat" where
  "clz_from 0 n = 0"
| "clz_from (Suc k) n = (if bit n k then 0 else Suc (clz_from k n))"

definition builtin_clz :: "32 word \<Rightarrow> nat option" where
  "builtin_clz n = (if n = 0 then None else Some (clz_from 32 n))"

definition ilog2 :: "32 word \<Rightarrow> int option" where
  "ilog2 n = map_option (\<lambda>c. 32 - int c - 1) (builtin_clz n)"

definition xs_newempty :: "xs \<Rightarrow> xs" where
  "xs_newempty x = xs_literal_empty"

definition xs_free :: "heap \<Rightarrow> xs \<Rightarrow> fault + heap \<times> xs" where
  "xs_free h x =
     (if xs_is_ptr x
      then bnd (xs_dec_refcnt h x) (\<lambda>(h1, r).
             if sint r \<le> 0
             then bnd (free h1 (ptr_field x)) (\<lambda>h2. Inr (h2, xs_newempty x))
             else Inr (h1, xs_newempty x))
      else Inr (h, xs_newempty x))"

subsection \<open>Allocation, construction, growth\<close>

text \<open>
  \<open>xs_allocate\<close> stores the capacity exponent and then calls \<open>xs_free\<close>, which
  overwrites the whole cell with the empty literal; the exponent that \<open>malloc\<close>'s
  argument is computed from is read back from the cell after that.
\<close>

definition xs_allocate :: "heap \<Rightarrow> xs \<Rightarrow> nat \<Rightarrow> fault + heap \<times> xs" where
  "xs_allocate h x len =
     (case ilog2 (of_nat len) of
        None \<Rightarrow> Inl Clz_zero
      | Some k \<Rightarrow>
          bnd (xs_free h (set_capacity_field x (nat (k + 1)))) (\<lambda>(h1, x1).
            if len \<ge> LARGE_STRING_LEN then
              let x2 = set_is_large_string x1 True;
                  (h2, p) = malloc h1 ((2 ^ capacity_field x2 + 4) mod 2 ^ 64);
                  x3 = set_is_ptr (set_ptr_field x2 p) True
              in bnd (xs_set_refcnt h2 x3 1) (\<lambda>h3. Inr (h3, x3))
            else if len > STACK_SIZE then
              let (h2, p) = malloc h1 (2 ^ capacity_field x1)
              in Inr (h2, set_is_ptr (set_ptr_field x1 p) True)
            else Inr (h1, x1)))"

definition xs_new :: "heap \<Rightarrow> xs \<Rightarrow> byte list \<Rightarrow> fault + heap \<times> xs" where
  "xs_new h x p =
     (let len = strlen p in
      bnd (xs_allocate h x len) (\<lambda>(h1, x1).
      bnd (store h1 x1 (xs_data x1) (take len p @ [0])) (\<lambda>(h2, x2).
      Inr (h2, xs_set_size x2 len))))"


text \<open>
  \<open>xs_grow\<close>: the backup is either the old heap data (\<open>f\<close> is the old block, freed at
  the end) or \<open>buf\<close>, a copy of the 16 bytes of the cell.
\<close>

definition xs_grow :: "heap \<Rightarrow> xs \<Rightarrow> nat \<Rightarrow> fault + heap \<times> xs" where
  "xs_grow h x len =
     (if len \<le> xs_capacity x then Inr (h, x)
      else
        let buf = x;
            backup = (if xs_is_ptr x then xs_data x else Cell 0);
            f = (if xs_is_ptr x then ptr_field x else 0);
            x1 = (if xs_is_ptr x then set_is_ptr x False else x)
        in bnd (xs_allocate h x1 len) (\<lambda>(h1, x2).
           bnd (load h1 buf backup (xs_size x2)) (\<lambda>bs.
           bnd (store h1 x2 (xs_data x2) bs) (\<lambda>(h2, x3).
           bnd (free h2 f) (\<lambda>h3. Inr (h3, x3))))))"

subsection \<open>Copy and copy on write\<close>

text \<open>\<open>xs_cpy\<close> returns the heap and the new \<open>dest\<close>; the cell \<open>src\<close> is not written.\<close>

definition xs_cpy :: "heap \<Rightarrow> xs \<Rightarrow> xs \<Rightarrow> fault + heap \<times> xs" where
  "xs_cpy h dest src =
     bnd (xs_free h dest) (\<lambda>(h1, d0).
       let d = src; len = xs_size src in
       if len \<ge> LARGE_STRING_LEN then bnd (xs_inc_refcnt h1 src) (\<lambda>h2. Inr (h2, d))
       else if len > STACK_SIZE then
         bnd (xs_allocate h1 (set_is_ptr d False) len) (\<lambda>(h2, d2).
         bnd (load h2 src (xs_data src) (len + 1)) (\<lambda>bs.
         store h2 d2 (xs_data d2) bs))
       else Inr (h1, d))"

definition xs_cow_lazy_copy :: "heap \<Rightarrow> xs \<Rightarrow> fault + heap \<times> xs \<times> bool" where
  "xs_cow_lazy_copy h x =
     bnd (xs_get_refcnt h x) (\<lambda>r.
       if sint r \<le> 1 then Inr (h, x, False)
       else
         let data = xs_data x in
         bnd (xs_dec_refcnt h x) (\<lambda>(h1, r1).
           let x1 = set_is_ptr x False in
           bnd (xs_allocate h1 x1 (xs_size x1)) (\<lambda>(h2, x2).
           bnd (load h2 x2 data (size_field x2 + 1)) (\<lambda>bs.
           bnd (store h2 x2 (xs_data x2) bs) (\<lambda>(h3, x3). Inr (h3, x3, True))))))"

subsection \<open>Concatenation\<close>

text \<open>
  \<open>prefix\<close> and \<open>suffix\<close> are cells other than \<open>string\<close>; they are only read.  Each
  \<open>memcpy\<close> and \<open>memmove\<close> is a load followed by a store.
\<close>

definition xs_concat :: "heap \<Rightarrow> xs \<Rightarrow> xs \<Rightarrow> xs \<Rightarrow> fault + heap \<times> xs" where
  "xs_concat h string prefix suffix =
     (let pres = xs_size prefix; sufs = xs_size suffix;
          size = xs_size string; capacity = xs_capacity string in
      bnd (xs_cow_lazy_copy h string) (\<lambda>(h0, s0, copied).
        let pre = xs_data prefix; suf = xs_data suffix; data = xs_data s0 in
        if size + pres + sufs \<le> capacity then
          bnd (load h0 s0 data size) (\<lambda>b1.
          bnd (store h0 s0 (loc_add data pres) b1) (\<lambda>(h1, s1).
          bnd (load h1 prefix pre pres) (\<lambda>b2.
          bnd (store h1 s1 data b2) (\<lambda>(h2, s2).
          bnd (load h2 suffix suf (sufs + 1)) (\<lambda>b3.
          bnd (store h2 s2 (loc_add data (pres + size)) b3) (\<lambda>(h3, s3).
            if xs_is_ptr s3 then Inr (h3, set_size_field s3 ((size + pres + sufs) mod 2 ^ 54))
            else Inr (h3, set_space_left s3 (sub64 15 (size + pres + sufs) mod 16))))))))
        else
          bnd (xs_grow h0 xs_literal_empty (size + pres + sufs)) (\<lambda>(h1, t1).
            let tmpdata = xs_data t1 in
            bnd (load h1 s0 data size) (\<lambda>b1.
            bnd (store h1 t1 (loc_add tmpdata pres) b1) (\<lambda>(h2, t2).
            bnd (load h2 prefix pre pres) (\<lambda>b2.
            bnd (store h2 t2 tmpdata b2) (\<lambda>(h3, t3).
            bnd (load h3 suffix suf (sufs + 1)) (\<lambda>b3.
            bnd (store h3 t3 (loc_add tmpdata (pres + size)) b3) (\<lambda>(h4, t4).
            bnd (xs_free h4 s0) (\<lambda>(h5, s5).
              Inr (h5, set_size_field t4 ((size + pres + sufs) mod 2 ^ 54))))))))))))"

subsection \<open>Trim\<close>

definition check_bit :: "byte list \<Rightarrow> byte \<Rightarrow> bool" where
  "check_bit msk i = (msk ! unat (drop_bit 3 i) AND push_bit (unat (i AND 7)) 1 \<noteq> 0)"

definition set_bit_mask :: "byte list \<Rightarrow> byte \<Rightarrow> byte list" where
  "set_bit_mask msk i =
     msk[unat (drop_bit 3 i) := msk ! unat (drop_bit 3 i) OR push_bit (unat (i AND 7)) 1]"

fun set_bits :: "byte list \<Rightarrow> byte list \<Rightarrow> byte list" where
  "set_bits msk [] = msk"
| "set_bits msk (c # cs) = set_bits (set_bit_mask msk c) cs"

text \<open>The forward scan: the first index whose byte is not in the mask.\<close>

fun scan_front :: "byte list \<Rightarrow> byte list \<Rightarrow> nat" where
  "scan_front msk [] = 0"
| "scan_front msk (b # bs) = (if \<not> check_bit msk b then 0 else Suc (scan_front msk bs))"

text \<open>The backward scan: \<open>slen\<close> goes down while the byte before it is in the mask.\<close>

fun scan_back :: "byte list \<Rightarrow> byte list \<Rightarrow> nat \<Rightarrow> nat" where
  "scan_back msk bs 0 = 0"
| "scan_back msk bs (Suc n) =
     (if \<not> check_bit msk (bs ! n) then Suc n else scan_back msk bs n)"

definition xs_trim :: "heap \<Rightarrow> xs \<Rightarrow> byte list \<Rightarrow> fault + heap \<times> xs" where
  "xs_trim h x trimset =
     (if strlen trimset = 0 then Inr (h, x)
      else
        bnd (xs_cow_lazy_copy h x) (\<lambda>(h0, x0, copied).
          let orig = xs_data x0;
              slen0 = xs_size x0;
              trimlen = strlen trimset;
              msk = set_bits (replicate 32 0) (take trimlen trimset)
          in bnd (load h0 x0 orig slen0) (\<lambda>bs.
               let i = scan_front msk bs;
                   slen1 = scan_back msk bs slen0;
                   slen = sub64 slen1 i
               in bnd (load h0 x0 (loc_add orig i) slen) (\<lambda>moved.
                  bnd (store h0 x0 orig moved) (\<lambda>(h1, x1).
                  bnd (load h1 x1 (loc_add orig slen) 1) (\<lambda>t.
                  bnd (if t \<noteq> [0] then store h1 x1 (loc_add orig slen) [0] else Inr (h1, x1))
                    (\<lambda>(h2, x2). Inr (h2, xs_set_size x2 slen))))))))"

subsection \<open>Representations and observations\<close>

text \<open>
  The three representations are told apart by the two flags, as \<open>xs_data\<close> does; a
  cell that is not heap-backed but carries the large-string flag is none of them.
\<close>

datatype repr = Inline | Medium | Large

definition xs_repr :: "xs \<Rightarrow> repr option" where
  "xs_repr x =
     (if \<not> xs_is_ptr x \<and> \<not> xs_is_large_string x then Some Inline
      else if xs_is_ptr x \<and> \<not> xs_is_large_string x then Some Medium
      else if xs_is_ptr x \<and> xs_is_large_string x then Some Large
      else None)"

text \<open>The bytes a caller observes: \<open>xs_size\<close> bytes at \<open>xs_data\<close>.\<close>

definition content :: "heap \<Rightarrow> xs \<Rightarrow> fault + byte list" where
  "content h x = load h x (xs_data x) (xs_size x)"

text \<open>The invariant of the data model: the capacity covers the length.\<close>

definition cap_inv :: "xs \<Rightarrow> bool" where
  "cap_inv x = (xs_size x \<le> xs_capacity x)"

text \<open>An empty heap whose allocator satisfies requests of up to \<open>2 ^ 62\<close> bytes.\<close>

definition heap0 :: heap where
  "heap0 = \<lparr>blocks = (\<lambda>a. None), fresh = 1, limit = 2 ^ 62, junk = (\<lambda>i. 0)\<rparr>"

text \<open>
  The cells \<open>xs_allocate\<close> leaves behind for a Medium and for a Large string whose
  block is at address \<open>p\<close>: the pointer, a zero \<open>size\<close>, and in the last byte the
  flags over the four \<open>space_left\<close> bits of the empty literal.
\<close>

definition medium_cell :: "nat \<Rightarrow> xs" where
  "medium_cell p = le_bytes 8 p @ [0, 0, 0, 0, 0, 0, 0, 31]"

definition large_cell :: "nat \<Rightarrow> xs" where
  "large_cell p = le_bytes 8 p @ [0, 0, 0, 0, 0, 0, 0, 63]"

text \<open>
  A Large value as the data model describes it, shared by two cells: 300 bytes \<open>a\<close> in a
  block of \<open>2 ^ 9 + 4\<close> bytes at address 1, capacity exponent 9, reference count 2.
\<close>

definition shared_cell :: xs where
  "shared_cell = [1, 0, 0, 0, 0, 0, 0, 0, 44, 1, 0, 0, 0, 0, 64, 50]"

definition shared_heap :: heap where
  "shared_heap =
     \<lparr>blocks = (\<lambda>a. None)(1 \<mapsto> (516,
        write_fun 0 [2, 0, 0, 0] (write_fun 4 (replicate 300 97 @ [0]) (\<lambda>i. 0)))),
      fresh = 2, limit = 2 ^ 62, junk = (\<lambda>i. 0)\<rparr>"

text \<open>
  The terminator of the data model: the byte after the content is 0.
\<close>

definition terminated :: "heap \<Rightarrow> xs \<Rightarrow> bool" where
  "terminated h x = (load h x (loc_add (xs_data x) (xs_size x)) 1 = Inr [0])"

section \<open>Properties\<close>

subsection \<open>Bytes and fields\<close>

lemma length_le_bytes [simp]: "length (le_bytes k n) = k"
  by (induction k arbitrary: n) simp_all

lemma le_bytes_numeral [simp]:
  "le_bytes (numeral k) n = of_nat n # le_bytes (pred_numeral k) (n div 256)"
  using le_bytes.simps(2) [of "pred_numeral k" n]
  by (simp only: numeral_eq_Suc [of k, symmetric])

lemma le_nat_bound: "le_nat bs < 256 ^ length bs"
proof (induction bs)
  case Nil
  show ?case by simp
next
  case (Cons b bs)
  have b: "unat b < 256" using unsigned_less [of b, where ?'a = nat] by simp
  have "le_nat (b # bs) = unat b + 256 * le_nat bs" by simp
  moreover have "le_nat bs + 1 \<le> 256 ^ length bs" using Cons.IH by simp
  then have "256 * (le_nat bs + 1) \<le> 256 * 256 ^ length bs" by (rule mult_le_mono2)
  ultimately show ?case using b by simp
qed

lemma and63_lt: "unat ((b :: byte) AND 63) < 64"
proof -
  have "unat (b AND 63) \<le> unat (63 :: byte)"
    by (rule word_and_le1 [THEN word_le_nat_alt [THEN iffD1]])
  then show ?thesis by simp
qed

lemma and15_lt: "unat ((b :: byte) AND 15) < 16"
proof -
  have "unat (b AND 15) \<le> unat (15 :: byte)"
    by (rule word_and_le1 [THEN word_le_nat_alt [THEN iffD1]])
  then show ?thesis by simp
qed

lemma size_field_lt: "size_field x < 2 ^ 54"
proof -
  have "length (take 6 (drop 8 x)) \<le> 6" by simp
  then have "(256::nat) ^ length (take 6 (drop 8 x)) \<le> 256 ^ 6"
    by (intro power_increasing) simp_all
  then have a: "le_nat (take 6 (drop 8 x)) < 256 ^ 6"
    using le_nat_bound [of "take 6 (drop 8 x)"] by linarith
  have b: "unat (x ! 14 AND 63) < 64" by (rule and63_lt)
  show ?thesis unfolding size_field_def using a b by simp
qed

lemma space_left_le: "space_left x \<le> 15"
  using and15_lt [of "x ! 15"] by (simp add: space_left_def)

lemma empty_flags [simp]:
  "\<not> xs_is_ptr xs_literal_empty" "\<not> xs_is_large_string xs_literal_empty"
  by (simp_all add: xs_is_ptr_def xs_is_large_string_def xs_literal_empty_def)

lemma ilog2_0: "ilog2 0 = None"
  by (simp add: ilog2_def builtin_clz_def)

subsection \<open>Reference-count queries on values that are not large\<close>

text \<open>
  C10.  For a value in the Inline or the Medium representation, \<open>xs_get_refcnt\<close>
  returns 0 and \<open>xs_dec_refcnt\<close> returns 0 and leaves the heap as it is, in every
  heap: the result does not depend on whether the pointer field names a live block, so
  nothing is read or written through it.
\<close>

theorem refcnt_inert:
  "xs_repr x = Some Inline \<or> xs_repr x = Some Medium \<Longrightarrow>
   xs_get_refcnt h x = Inr 0 \<and> xs_dec_refcnt h x = Inr (h, 0)"
  by (auto simp: xs_repr_def xs_get_refcnt_def xs_dec_refcnt_def split: if_splits)

theorem refcnt_inert_witness:
  "xs_repr xs_literal_empty = Some Inline \<and>
   xs_get_refcnt heap0 xs_literal_empty = Inr 0 \<and>
   xs_dec_refcnt heap0 xs_literal_empty = Inr (heap0, 0)"
  using refcnt_inert [of xs_literal_empty heap0] by (simp add: xs_repr_def)

subsection \<open>Allocation of length 0\<close>

text \<open>
  C7.  \<open>xs_allocate\<close> evaluates \<open>ilog2\<close> on the requested length before anything else,
  also when the length is 0, where \<open>__builtin_clz\<close> is undefined: allocating for
  length 0, and so constructing a string from the empty byte sequence, has no defined
  result for any cell and any heap.
\<close>

theorem allocate_zero_undefined:
  "xs_allocate h x 0 = Inl Clz_zero \<and> xs_new h x [] = Inl Clz_zero"
  by (simp add: xs_allocate_def xs_new_def strlen_def ilog2_0 bnd_def)

subsection \<open>Cells, allocation and memory\<close>

lemma list_update_Cons_numeral:
  "(a # as)[numeral n := y] = a # as[pred_numeral n := y]"
  by (simp add: numeral_eq_Suc)

lemma xs_free_cell: "xs_free h x = Inr (h', x') \<Longrightarrow> x' = xs_literal_empty"
  by (auto simp: xs_free_def bnd_def xs_newempty_def split: if_splits sum.splits prod.splits)

lemma xs_free_inline: "\<not> xs_is_ptr x \<Longrightarrow> xs_free h x = Inr (h, xs_literal_empty)"
  by (simp add: xs_free_def xs_newempty_def)

lemma is_ptr_set_capacity [simp]:
  "length x = 16 \<Longrightarrow> xs_is_ptr (set_capacity_field x k) = xs_is_ptr x"
  by (simp add: xs_is_ptr_def set_capacity_field_def bit_simps)

lemma mk_medium: "set_is_ptr (set_ptr_field xs_literal_empty p) True = medium_cell p"
  by (simp add: set_is_ptr_def set_ptr_field_def xs_literal_empty_def medium_cell_def
      list_update_append nth_append list_update_Cons_numeral)

lemma mk_large:
  "set_is_ptr (set_ptr_field (set_is_large_string xs_literal_empty True) p) True = large_cell p"
  by (simp add: set_is_ptr_def set_ptr_field_def set_is_large_string_def xs_literal_empty_def
      large_cell_def list_update_append nth_append list_update_Cons_numeral)

lemma length_empty [simp]: "length xs_literal_empty = 16"
  by (simp add: xs_literal_empty_def)

lemma cap_empty [simp]: "capacity_field xs_literal_empty = 60"
  by (simp add: capacity_field_def xs_literal_empty_def)

lemma cap_empty_large [simp]: "capacity_field (set_is_large_string xs_literal_empty True) = 60"
  by (simp add: capacity_field_def xs_literal_empty_def set_is_large_string_def list_update_Cons_numeral)

lemma medium_fields [simp]:
  "xs_is_ptr (medium_cell p)" "\<not> xs_is_large_string (medium_cell p)"
  "capacity_field (medium_cell p) = 60" "size_field (medium_cell p) = 0"
  "length (medium_cell p) = 16"
  by (simp_all add: medium_cell_def xs_is_ptr_def xs_is_large_string_def capacity_field_def
      size_field_def nth_append)

lemma large_fields [simp]:
  "xs_is_ptr (large_cell p)" "xs_is_large_string (large_cell p)"
  "capacity_field (large_cell p) = 60" "size_field (large_cell p) = 0"
  "length (large_cell p) = 16"
  by (simp_all add: large_cell_def xs_is_ptr_def xs_is_large_string_def capacity_field_def
      size_field_def nth_append)

lemma xs_allocate_cases:
  assumes "xs_allocate h x len = Inr (h', x')"
  shows "(len \<le> 15 \<and> x' = xs_literal_empty) \<or>
         (15 < len \<and> len < 256 \<and> (\<exists>p. x' = medium_cell p)) \<or>
         (256 \<le> len \<and> (\<exists>p. x' = large_cell p))"
  using assms
  by (auto simp: xs_allocate_def bnd_def Let_def mk_medium mk_large LARGE_STRING_LEN_def
      STACK_SIZE_def dest!: xs_free_cell split: option.splits sum.splits prod.splits if_splits)

lemma ilog2_None_iff: "ilog2 w = None \<longleftrightarrow> w = 0"
  by (simp add: ilog2_def builtin_clz_def)

lemma of_nat32_eq_0_iff: "(of_nat n :: 32 word) = 0 \<longleftrightarrow> n mod 2 ^ 32 = 0"
  by (simp add: word_of_nat_eq_0_iff mod_eq_0_iff_dvd)

lemma le_nat_le_bytes: "le_nat (le_bytes k n) = n mod 256 ^ k"
proof (induction k arbitrary: n)
  case 0
  show ?case by simp
next
  case (Suc k)
  have "le_nat (le_bytes (Suc k) n) = n mod 256 + 256 * (n div 256 mod 256 ^ k)"
    by (simp add: Suc.IH unat_of_nat)
  also have "\<dots> = n mod (256 * 256 ^ k)"
    by (simp add: mod_mult2_eq)
  finally show ?case by simp
qed

lemma ptr_medium [simp]: "p < 2 ^ 64 \<Longrightarrow> ptr_field (medium_cell p) = p"
  by (simp add: ptr_field_def medium_cell_def le_nat_le_bytes del: le_bytes_numeral)

lemma ptr_large [simp]: "p < 2 ^ 64 \<Longrightarrow> ptr_field (large_cell p) = p"
  by (simp add: ptr_field_def large_cell_def le_nat_le_bytes del: le_bytes_numeral)

lemma ilog2_Some: "n mod 2 ^ 32 \<noteq> 0 \<Longrightarrow> \<exists>k. ilog2 (of_nat n) = Some k"
  using ilog2_None_iff [of "of_nat n"] of_nat32_eq_0_iff [of n] by auto

lemma alloc_inline_ok:
  assumes "\<not> xs_is_ptr x" "length x = 16" "len \<le> 15" "len \<noteq> 0"
  shows "xs_allocate h x len = Inr (h, xs_literal_empty)"
proof -
  have "len mod 2 ^ 32 \<noteq> 0" using assms by simp
  then obtain k where k: "ilog2 (of_nat len) = Some k" using ilog2_Some by blast
  have f: "xs_free h (set_capacity_field x (nat (k + 1))) = Inr (h, xs_literal_empty)"
    using assms by (intro xs_free_inline) simp
  show ?thesis unfolding xs_allocate_def using k f assms
    by (simp add: bnd_def LARGE_STRING_LEN_def STACK_SIZE_def)
qed

lemma alloc_medium_ok:
  assumes "\<not> xs_is_ptr x" "length x = 16" "15 < len" "len < 256"
    and "2 ^ 60 \<le> limit h" "0 < fresh h" "fresh h < 2 ^ 64"
  shows "xs_allocate h x len =
     Inr (h\<lparr>blocks := (blocks h)(fresh h \<mapsto> (2 ^ 60, junk h)), fresh := fresh h + 1\<rparr>,
          medium_cell (fresh h))"
proof -
  have "len mod 2 ^ 32 \<noteq> 0" using assms by simp
  then obtain k where k: "ilog2 (of_nat len) = Some k" using ilog2_Some by blast
  have f: "xs_free h (set_capacity_field x (nat (k + 1))) = Inr (h, xs_literal_empty)"
    using assms by (intro xs_free_inline) simp
  have m: "malloc h (2 ^ 60) =
     (h\<lparr>blocks := (blocks h)(fresh h \<mapsto> (2 ^ 60, junk h)), fresh := fresh h + 1\<rparr>, fresh h)"
    using assms by (simp add: malloc_def)
  show ?thesis unfolding xs_allocate_def using k f m assms
    by (simp add: bnd_def LARGE_STRING_LEN_def STACK_SIZE_def mk_medium)
qed

lemma load_mem:
  "blocks h a = Some (sz, c) \<Longrightarrow> off + n \<le> unat sz \<Longrightarrow>
   load h x (Mem a off) n = Inr (map c [off..<off + n])"
  by (simp add: load_def)

lemma store_mem:
  "blocks h a = Some (sz, c) \<Longrightarrow> off + length bs \<le> unat sz \<Longrightarrow>
   store h x (Mem a off) bs = Inr (h\<lparr>blocks := (blocks h)(a \<mapsto> (sz, write_fun off bs c))\<rparr>, x)"
  by (simp add: store_def)

lemma map_write_fun_same:
  "n \<le> length bs \<Longrightarrow> map (write_fun off bs c) [off..<off + n] = take n bs"
  by (rule nth_equalityI) (simp_all add: write_fun_def)

lemma map_write_fun_other:
  "off' + n \<le> off \<or> off + length bs \<le> off' \<Longrightarrow>
   map (write_fun off bs c) [off'..<off' + n] = map c [off'..<off' + n]"
  by (rule nth_equalityI) (auto simp: write_fun_def)

lemma read_int_block:
  "blocks h a = Some (sz, c) \<Longrightarrow> 4 \<le> unat sz \<Longrightarrow>
   read_int h a = Inr (of_nat (le_nat (map c [0..<4])))"
  by (simp add: read_int_def load_def bnd_def)

lemma write_int_block:
  "blocks h a = Some (sz, c) \<Longrightarrow> 4 \<le> unat sz \<Longrightarrow>
   write_int h a v = Inr (h\<lparr>blocks := (blocks h)(a \<mapsto> (sz, write_fun 0 (le_bytes 4 (unat v)) c))\<rparr>)"
  by (simp add: write_int_def store_def bnd_def)

lemma unat_big [simp]: "unat (1152921504606846980 :: 64 word) = 1152921504606846980"
  "unat (1152921504606846976 :: 64 word) = 1152921504606846976"
  by simp_all

lemma alloc_large_ok:
  assumes "\<not> xs_is_ptr x" "length x = 16" "256 \<le> len" "len mod 2 ^ 32 \<noteq> 0"
    and "2 ^ 60 + 4 \<le> limit h" "0 < fresh h" "fresh h < 2 ^ 64"
  shows "xs_allocate h x len =
     Inr (h\<lparr>blocks := (blocks h)(fresh h \<mapsto> (2 ^ 60 + 4, write_fun 0 (le_bytes 4 1) (junk h))),
            fresh := fresh h + 1\<rparr>,
          large_cell (fresh h))"
proof -
  obtain k where k: "ilog2 (of_nat len) = Some k" using ilog2_Some assms(4) by blast
  have f: "xs_free h (set_capacity_field x (nat (k + 1))) = Inr (h, xs_literal_empty)"
    using assms by (intro xs_free_inline) simp
  define h1 where "h1 = h\<lparr>blocks := (blocks h)(fresh h \<mapsto> (2 ^ 60 + 4, junk h)), fresh := fresh h + 1\<rparr>"
  have m: "malloc h ((2 ^ 60 + 4) mod 2 ^ 64) = (h1, fresh h)"
    using assms by (simp add: malloc_def h1_def)
  have b: "blocks h1 (fresh h) = Some (2 ^ 60 + 4, junk h)" by (simp add: h1_def)
  have w: "write_int h1 (fresh h) 1 =
     Inr (h1\<lparr>blocks := (blocks h1)(fresh h \<mapsto> (2 ^ 60 + 4, write_fun 0 (le_bytes 4 (unat (1 :: 32 word))) (junk h)))\<rparr>)"
    by (rule write_int_block [OF b]) simp
  show ?thesis unfolding xs_allocate_def using k f m w assms
    by (simp add: bnd_def LARGE_STRING_LEN_def STACK_SIZE_def mk_large xs_set_refcnt_def h1_def
       )
qed


lemma heap0_simps [simp]:
  "blocks heap0 = (\<lambda>a. None)" "fresh heap0 = 1" "limit heap0 = 2 ^ 62" "junk heap0 = (\<lambda>i. 0)"
  by (simp_all add: heap0_def)

lemma medium_cell_1: "medium_cell 1 = [1, 0, 0, 0, 0, 0, 0, 0, 0, 0, 0, 0, 0, 0, 0, 31]"
  by (simp add: medium_cell_def)

subsection \<open>The capacity after an allocation\<close>

text \<open>
  C3.  \<open>xs_allocate\<close> for length 16 on the empty cell and the empty heap yields a
  Medium cell, but the capacity exponent it stored (5) is overwritten when \<open>xs_free\<close>
  resets the cell to the empty literal, whose \<open>space_left\<close> bits read back as
  exponent 60: the block requested from \<open>malloc\<close> has \<open>2 ^ 60\<close> bytes and the
  capacity is \<open>2 ^ 60 - 1\<close>, not 31, the smallest \<open>2 ^ k - 1\<close> that covers 16.
\<close>

theorem allocate_16_capacity:
  "\<exists>h'. xs_allocate heap0 xs_literal_empty 16 =
           Inr (h', [1, 0, 0, 0, 0, 0, 0, 0, 0, 0, 0, 0, 0, 0, 0, 31]) \<and>
        map_option fst (blocks h' 1) = Some (2 ^ 60) \<and>
        xs_repr [1, 0, 0, 0, 0, 0, 0, 0, 0, 0, 0, 0, 0, 0, 0, 31] = Some Medium \<and>
        xs_capacity [1, 0, 0, 0, 0, 0, 0, 0, 0, 0, 0, 0, 0, 0, 0, 31] = 2 ^ 60 - 1"
proof -
  have a: "xs_allocate heap0 xs_literal_empty 16 =
     Inr (heap0\<lparr>blocks := (blocks heap0)(fresh heap0 \<mapsto> (2 ^ 60, junk heap0)),
                fresh := fresh heap0 + 1\<rparr>, medium_cell (fresh heap0))"
    by (rule alloc_medium_ok) simp_all
  have r: "xs_repr (medium_cell 1) = Some Medium" by (simp add: xs_repr_def)
  have c: "xs_capacity (medium_cell 1) = 2 ^ 60 - 1" by (simp add: xs_capacity_def)
  show ?thesis using a r c unfolding medium_cell_1 by (simp add: medium_cell_def)
qed

subsection \<open>Growing drops the content\<close>

text \<open>
  C5.  The inline string "abc" (built by \<open>xs_new\<close>: length 3, content "abc") is grown
  to 16.  \<open>xs_grow\<close> copies \<open>xs_size\<close> bytes from the backup, but reads \<open>xs_size\<close>
  after \<open>xs_allocate\<close> has reset the cell: zero bytes are copied, and the result has
  length 0 and empty content.
\<close>

theorem grow_drops_content:
  "xs_new heap0 xs_literal_empty [97, 98, 99] =
     Inr (heap0, [97, 98, 99, 0, 0, 0, 0, 0, 0, 0, 0, 0, 0, 0, 0, 12]) \<and>
   xs_size [97, 98, 99, 0, 0, 0, 0, 0, 0, 0, 0, 0, 0, 0, 0, 12] = 3 \<and>
   content heap0 [97, 98, 99, 0, 0, 0, 0, 0, 0, 0, 0, 0, 0, 0, 0, 12] = Inr [97, 98, 99] \<and>
   (\<exists>h'. xs_grow heap0 [97, 98, 99, 0, 0, 0, 0, 0, 0, 0, 0, 0, 0, 0, 0, 12] 16 =
            Inr (h', [1, 0, 0, 0, 0, 0, 0, 0, 0, 0, 0, 0, 0, 0, 0, 31]) \<and>
         xs_size [1, 0, 0, 0, 0, 0, 0, 0, 0, 0, 0, 0, 0, 0, 0, 31] = 0 \<and>
         content h' [1, 0, 0, 0, 0, 0, 0, 0, 0, 0, 0, 0, 0, 0, 0, 31] = Inr [])"
proof -
  define abc :: xs where "abc = [97, 98, 99, 0, 0, 0, 0, 0, 0, 0, 0, 0, 0, 0, 0, 12]"
  have np: "\<not> xs_is_ptr abc" by (simp add: abc_def xs_is_ptr_def)
  have len: "length abc = 16" by (simp add: abc_def)
  have a0: "xs_allocate heap0 xs_literal_empty 3 = Inr (heap0, xs_literal_empty)"
    by (rule alloc_inline_ok) simp_all
  have s: "strlen [97, 98, 99] = 3" by (simp add: strlen_def)
  have st: "store heap0 xs_literal_empty (Cell 0) [97, 98, 99, 0] =
      Inr (heap0, [97, 98, 99, 0, 0, 0, 0, 0, 0, 0, 0, 0, 0, 0, 0, 15])"
    by (simp add: store_def write_at_def xs_literal_empty_def)
  have sz: "xs_set_size [97, 98, 99, 0, 0, 0, 0, 0, 0, 0, 0, 0, 0, 0, 0, 15] 3 = abc"
    by (simp add: xs_set_size_def set_space_left_def sub64_def STACK_SIZE_def abc_def
        xs_is_ptr_def list_update_Cons_numeral)
  have n: "xs_new heap0 xs_literal_empty [97, 98, 99] = Inr (heap0, abc)"
    unfolding xs_new_def s Let_def using a0 st sz by (simp add: bnd_def xs_data_def)
  have size: "xs_size abc = 3"
    by (simp add: xs_size_def xs_is_ptr_def space_left_def STACK_SIZE_def abc_def)
  have cont: "content heap0 abc = Inr [97, 98, 99]"
    using np size by (simp add: content_def xs_data_def load_def) (simp add: abc_def)
  define h1 where "h1 = heap0\<lparr>blocks := (blocks heap0)(fresh heap0 \<mapsto> (2 ^ 60, junk heap0)),
                fresh := fresh heap0 + 1\<rparr>"
  have a: "xs_allocate heap0 abc 16 = Inr (h1, medium_cell (fresh heap0))"
    unfolding h1_def using np len by (intro alloc_medium_ok) simp_all
  have b: "blocks h1 1 = Some (2 ^ 60, junk heap0)" by (simp add: h1_def)
  have l: "load h1 abc (Cell 0) 0 = Inr []" by (simp add: load_def)
  have s2: "store h1 (medium_cell 1) (Mem 1 0) [] =
      Inr (h1\<lparr>blocks := (blocks h1)(1 \<mapsto> (2 ^ 60, write_fun 0 [] (junk heap0)))\<rparr>, medium_cell 1)"
    by (rule store_mem [OF b]) simp
  have g: "xs_grow heap0 abc 16 =
      Inr (h1\<lparr>blocks := (blocks h1)(1 \<mapsto> (2 ^ 60, write_fun 0 [] (junk heap0)))\<rparr>, medium_cell 1)"
    unfolding xs_grow_def using a np l s2
    by (simp add: bnd_def xs_capacity_def xs_size_def xs_data_def free_def)
  have size2: "xs_size (medium_cell 1) = 0" by (simp add: xs_size_def)
  have cont2: "content (h1\<lparr>blocks := (blocks h1)(1 \<mapsto> (2 ^ 60, write_fun 0 [] (junk heap0)))\<rparr>)
      (medium_cell 1) = Inr []"
    by (simp add: content_def xs_size_def xs_data_def load_def)
  show ?thesis
    using n size cont g size2 cont2 unfolding abc_def medium_cell_1 by blast
qed

subsection \<open>Trimming a string whose bytes are all in the set\<close>

lemma cow_unshared:
  "\<not> xs_is_large_string x \<Longrightarrow> xs_cow_lazy_copy h x = Inr (h, x, False)"
  by (simp add: xs_cow_lazy_copy_def xs_get_refcnt_def bnd_def)

lemma bnd_Inl [simp]: "bnd (Inl e) f = Inl e"
  by (simp add: bnd_def)

lemma bnd_Inr [simp]: "bnd (Inr v) f = f v"
  by (simp add: bnd_def)

lemma xs_trim_scan:
  assumes "strlen ts \<noteq> 0"
    and "xs_cow_lazy_copy h x = Inr (h0, x0, c)"
    and "load h0 x0 (xs_data x0) (xs_size x0) = Inr bs"
    and "scan_front (set_bits (replicate 32 0) (take (strlen ts) ts)) bs = i"
    and "scan_back (set_bits (replicate 32 0) (take (strlen ts) ts)) bs (xs_size x0) = s1"
  shows "xs_trim h x ts =
     bnd (load h0 x0 (loc_add (xs_data x0) i) (sub64 s1 i)) (\<lambda>moved.
     bnd (store h0 x0 (xs_data x0) moved) (\<lambda>(h1, x1).
     bnd (load h1 x1 (loc_add (xs_data x0) (sub64 s1 i)) 1) (\<lambda>t.
     bnd (if t \<noteq> [0] then store h1 x1 (loc_add (xs_data x0) (sub64 s1 i)) [0]
          else Inr (h1, x1))
       (\<lambda>(h2, x2). Inr (h2, xs_set_size x2 (sub64 s1 i))))))"
  using assms by (simp add: xs_trim_def Let_def cong: if_cong)

lemma mask32: "set_bits (replicate 32 0) [32] = (replicate 32 0)[4 := 1]"
  by (simp add: set_bit_mask_def)

lemma cb32: "check_bit ((replicate 32 0)[4 := 1]) 32"
  by (simp add: check_bit_def)

text \<open>
  C6.  The inline string of two spaces (built by \<open>xs_new\<close>) is trimmed with the set
  \<open>" "\<close>.  The forward scan stops at \<open>i = 2\<close>, the backward scan at \<open>slen = 0\<close>,
  and \<open>slen -= i\<close> wraps to \<open>2 ^ 64 - 2\<close>: \<open>memmove\<close> is asked to move that many
  bytes from \<open>data + 2\<close>, far beyond the 16-byte cell.  The first trim has no result,
  so there is nothing a second trim could agree with.
\<close>

theorem trim_all_members:
  "xs_new heap0 xs_literal_empty [32, 32] =
     Inr (heap0, [32, 32, 0, 0, 0, 0, 0, 0, 0, 0, 0, 0, 0, 0, 0, 13]) \<and>
   xs_trim heap0 [32, 32, 0, 0, 0, 0, 0, 0, 0, 0, 0, 0, 0, 0, 0, 13] [32] = Inl Out_of_bounds"
proof -
  define sp :: xs where "sp = [32, 32, 0, 0, 0, 0, 0, 0, 0, 0, 0, 0, 0, 0, 0, 13]"
  have a0: "xs_allocate heap0 xs_literal_empty 2 = Inr (heap0, xs_literal_empty)"
    by (rule alloc_inline_ok) simp_all
  have s: "strlen [32, 32] = 2" by (simp add: strlen_def)
  have st: "store heap0 xs_literal_empty (Cell 0) [32, 32, 0] =
      Inr (heap0, [32, 32, 0, 0, 0, 0, 0, 0, 0, 0, 0, 0, 0, 0, 0, 15])"
    by (simp add: store_def write_at_def xs_literal_empty_def)
  have sz: "xs_set_size [32, 32, 0, 0, 0, 0, 0, 0, 0, 0, 0, 0, 0, 0, 0, 15] 2 = sp"
    by (simp add: xs_set_size_def set_space_left_def sub64_def STACK_SIZE_def sp_def
        xs_is_ptr_def list_update_Cons_numeral)
  have n: "xs_new heap0 xs_literal_empty [32, 32] = Inr (heap0, sp)"
    unfolding xs_new_def s Let_def using a0 st sz by (simp add: xs_data_def)
  have np: "\<not> xs_is_ptr sp" "\<not> xs_is_large_string sp"
    by (simp_all add: sp_def xs_is_ptr_def xs_is_large_string_def)
  have size: "xs_size sp = 2"
    by (simp add: xs_size_def xs_is_ptr_def space_left_def STACK_SIZE_def sp_def)
  have data: "xs_data sp = Cell 0" using np by (simp add: xs_data_def)
  have ts: "strlen [32] = 1" by (simp add: strlen_def)
  have ld: "load heap0 sp (xs_data sp) (xs_size sp) = Inr [32, 32]"
    unfolding data size by (simp add: load_def sp_def)
  have m: "set_bits (replicate 32 0) (take (strlen [32]) [32]) = (replicate 32 0)[4 := 1]"
    unfolding ts by (simp add: set_bit_mask_def)
  have i: "scan_front (set_bits (replicate 32 0) (take (strlen [32]) [32])) [32, 32] = 2"
    unfolding m using cb32 by simp
  have b: "scan_back (set_bits (replicate 32 0) (take (strlen [32]) [32])) [32, 32] (xs_size sp) = 0"
    unfolding m size using cb32 by (simp add: numeral_2_eq_2)
  have oob: "load heap0 sp (loc_add (xs_data sp) 2) (sub64 0 2) = Inl Out_of_bounds"
    unfolding data by (simp add: load_def sub64_def)
  have t: "xs_trim heap0 sp [32] = Inl Out_of_bounds"
    by (subst xs_trim_scan [OF _ cow_unshared [OF np(2)] ld i b]) (simp_all add: ts oob)
  show ?thesis using n t unfolding sp_def by simp
qed

subsection \<open>Concatenation onto a shared large string\<close>

lemma xs_allocate_0: "xs_allocate h x 0 = Inl Clz_zero"
  by (simp add: xs_allocate_def ilog2_0)

lemma xs_new_eq:
  "xs_allocate h x (strlen p) = Inr (h1, x1) \<Longrightarrow>
   store h1 x1 (xs_data x1) (take (strlen p) p @ [0]) = Inr (h2, x2) \<Longrightarrow>
   xs_new h x p = Inr (h2, xs_set_size x2 (strlen p))"
  by (simp add: xs_new_def Let_def)

lemma xs_cpy_large_eq:
  "xs_free h dest = Inr (h1, d0) \<Longrightarrow> 256 \<le> xs_size src \<Longrightarrow>
   xs_cpy h dest src = bnd (xs_inc_refcnt h1 src) (\<lambda>h2. Inr (h2, src))"
  by (simp add: xs_cpy_def Let_def LARGE_STRING_LEN_def)

lemma xs_cow_shared_eq:
  "xs_get_refcnt h x = Inr r \<Longrightarrow> \<not> sint r \<le> 1 \<Longrightarrow> xs_dec_refcnt h x = Inr (h1, r1) \<Longrightarrow>
   xs_allocate h1 (set_is_ptr x False) (xs_size (set_is_ptr x False)) = Inl e \<Longrightarrow>
   xs_cow_lazy_copy h x = Inl e"
  by (simp add: xs_cow_lazy_copy_def Let_def)

lemma xs_concat_cow_fault:
  "xs_cow_lazy_copy h s = Inl e \<Longrightarrow> xs_concat h s p q = Inl e"
  by (simp add: xs_concat_def Let_def)

lemma strlen_replicate: "c \<noteq> 0 \<Longrightarrow> strlen (replicate n c) = n"
  by (simp add: strlen_def takeWhile_eq_all_conv [THEN iffD2])

lemma le_nat_le_bytes4: "v < 2 ^ 32 \<Longrightarrow> le_nat (le_bytes 4 v) = v"
  by (simp add: le_nat_le_bytes del: le_bytes_numeral)

lemma map4_write_fun_0: "length bs = 4 \<Longrightarrow> map (write_fun 0 bs c) [0..<4] = bs"
  using map_write_fun_same [of 4 bs 0 c] by simp

lemma map4_write_fun_4: "map (write_fun 4 bs c) [0..<4] = map c [0..<4]"
  using map_write_fun_other [of 0 4 4 bs c] by simp

lemma large_sized:
  "set_size_field (large_cell (Suc 0)) 256 = [1, 0, 0, 0, 0, 0, 0, 0, 0, 1, 0, 0, 0, 0, 0, 63]"
  by (simp add: set_size_field_def large_cell_def)


text \<open>
  C1.  A 256-byte string is constructed (Large) and copied, so that the two cells share
  one buffer with reference count 2; the copy holds the 256 bytes.  Concatenating the
  empty prefix and the empty suffix onto the copy starts with \<open>xs_cow_lazy_copy\<close>,
  which clears \<open>is_ptr\<close> before it asks \<open>xs_size\<close> for the length to allocate.  The
  size is then read from \<open>space_left\<close>, which overlaps the capacity exponent 60, and is
  \<open>15 - 15 = 0\<close>; \<open>xs_allocate\<close> for length 0 evaluates \<open>__builtin_clz(0)\<close>.
  The concatenation has no defined result, so the target is not left unchanged.
\<close>

theorem concat_shared_undefined:
  "\<exists>h1 h2.
     xs_new heap0 xs_literal_empty (replicate 256 97) =
       Inr (h1, [1, 0, 0, 0, 0, 0, 0, 0, 0, 1, 0, 0, 0, 0, 0, 63]) \<and>
     xs_repr [1, 0, 0, 0, 0, 0, 0, 0, 0, 1, 0, 0, 0, 0, 0, 63] = Some Large \<and>
     xs_cpy h1 xs_literal_empty [1, 0, 0, 0, 0, 0, 0, 0, 0, 1, 0, 0, 0, 0, 0, 63] =
       Inr (h2, [1, 0, 0, 0, 0, 0, 0, 0, 0, 1, 0, 0, 0, 0, 0, 63]) \<and>
     xs_get_refcnt h2 [1, 0, 0, 0, 0, 0, 0, 0, 0, 1, 0, 0, 0, 0, 0, 63] = Inr 2 \<and>
     content h2 [1, 0, 0, 0, 0, 0, 0, 0, 0, 1, 0, 0, 0, 0, 0, 63] = Inr (replicate 256 97) \<and>
     xs_concat h2 [1, 0, 0, 0, 0, 0, 0, 0, 0, 1, 0, 0, 0, 0, 0, 63]
       xs_literal_empty xs_literal_empty = Inl Clz_zero"
proof -
  define x :: xs where "x = [1, 0, 0, 0, 0, 0, 0, 0, 0, 1, 0, 0, 0, 0, 0, 63]"
  define c0 where "c0 = write_fun 0 (le_bytes 4 1) (junk heap0)"
  define c1 where "c1 = write_fun 4 (replicate 256 97 @ [0]) c0"
  define c2 where "c2 = write_fun 0 (le_bytes 4 (unat (2 :: 32 word))) c1"
  define c3 where "c3 = write_fun 0 (le_bytes 4 (unat (1 :: 32 word))) c2"
  define ha where "ha = heap0\<lparr>blocks := (blocks heap0)(fresh heap0 \<mapsto> (2 ^ 60 + 4, c0)),
                            fresh := fresh heap0 + 1\<rparr>"
  define h1 where "h1 = ha\<lparr>blocks := (blocks ha)(1 \<mapsto> (2 ^ 60 + 4, c1))\<rparr>"
  define h2 where "h2 = h1\<lparr>blocks := (blocks h1)(1 \<mapsto> (2 ^ 60 + 4, c2))\<rparr>"
  define h3 where "h3 = h2\<lparr>blocks := (blocks h2)(1 \<mapsto> (2 ^ 60 + 4, c3))\<rparr>"
  have fx: "xs_is_ptr x" "xs_is_large_string x" "ptr_field x = 1" "size_field x = 256"
    "xs_data x = Mem 1 4" "xs_size x = 256"
    by (simp_all add: x_def xs_is_ptr_def xs_is_large_string_def ptr_field_def size_field_def
        xs_data_def xs_size_def)
  have sl: "strlen (replicate 256 (97 :: byte)) = 256" by (simp add: strlen_replicate)
  have al: "xs_allocate heap0 xs_literal_empty 256 = Inr (ha, large_cell (fresh heap0))"
    unfolding ha_def c0_def by (rule alloc_large_ok) simp_all
  have ba: "blocks ha 1 = Some (2 ^ 60 + 4, c0)" by (simp add: ha_def)
  have st: "store ha (large_cell 1) (Mem 1 4) (replicate 256 97 @ [0]) = Inr (h1, large_cell 1)"
    unfolding h1_def c1_def by (rule store_mem [OF ba]) simp
  have new: "xs_new heap0 xs_literal_empty (replicate 256 97) = Inr (h1, x)"
    using xs_new_eq [of heap0 xs_literal_empty "replicate 256 97" ha "large_cell 1" h1 "large_cell 1"]
      al st
    by (simp add: sl xs_data_def xs_set_size_def large_sized x_def)
  have rep: "xs_repr x = Some Large" using fx by (simp add: xs_repr_def)
  have b1: "blocks h1 1 = Some (2 ^ 60 + 4, c1)" by (simp add: h1_def)
  have r1: "read_int h1 1 = Inr 1"
    using read_int_block [OF b1]
    by (simp add: c1_def c0_def map4_write_fun_4 map4_write_fun_0 del: upt_Suc)
  have w1: "write_int h1 1 2 = Inr h2"
    unfolding h2_def c2_def by (rule write_int_block [OF b1]) simp
  have inc: "xs_inc_refcnt h1 x = Inr h2"
    using fx r1 w1 by (simp add: xs_inc_refcnt_def)
  have cpy: "xs_cpy h1 xs_literal_empty x = Inr (h2, x)"
    using xs_cpy_large_eq [of h1 xs_literal_empty h1 xs_literal_empty x] fx inc
    by (simp add: xs_free_inline)
  have b2: "blocks h2 1 = Some (2 ^ 60 + 4, c2)" by (simp add: h2_def)
  have r2: "read_int h2 1 = Inr 2"
    using read_int_block [OF b2] by (simp add: c2_def map4_write_fun_0 del: upt_Suc)
  have get: "xs_get_refcnt h2 x = Inr 2" using fx r2 by (simp add: xs_get_refcnt_def)
  have cont: "content h2 x = Inr (replicate 256 97)"
  proof -
    have "map c2 [4..<4 + 256] = map c1 [4..<4 + 256]"
      unfolding c2_def by (rule map_write_fun_other) simp
    also have "\<dots> = take 256 (replicate 256 97 @ [0])"
      unfolding c1_def by (rule map_write_fun_same) simp
    finally have "map c2 [4..<4 + 256] = replicate 256 97" by simp
    then show ?thesis
      using load_mem [OF b2, of 4 256 x] fx by (simp add: content_def)
  qed
  have w2: "write_int h2 1 (2 - 1) = Inr h3"
    unfolding h3_def c3_def using write_int_block [OF b2, of 1] by simp
  have dec: "xs_dec_refcnt h2 x = Inr (h3, 1)"
    using fx r2 w2 by (simp add: xs_dec_refcnt_def)
  have z: "xs_size (set_is_ptr x False) = 0"
    by (simp add: x_def set_is_ptr_def xs_size_def xs_is_ptr_def space_left_def STACK_SIZE_def
        list_update_Cons_numeral)
  have cow: "xs_cow_lazy_copy h2 x = Inl Clz_zero"
    by (rule xs_cow_shared_eq [OF get _ dec]) (simp_all add: z xs_allocate_0)
  have cat: "xs_concat h2 x xs_literal_empty xs_literal_empty = Inl Clz_zero"
    by (rule xs_concat_cow_fault [OF cow])
  show ?thesis using new rep cpy get cont cat unfolding x_def by blast
qed

subsection \<open>Copying a large string that has been trimmed\<close>

lemma cow_refcnt_le1:
  "xs_get_refcnt h x = Inr r \<Longrightarrow> sint r \<le> 1 \<Longrightarrow> xs_cow_lazy_copy h x = Inr (h, x, False)"
  by (simp add: xs_cow_lazy_copy_def)

lemma xs_cpy_medium_eq:
  "xs_free h dest = Inr (h1, d0) \<Longrightarrow> 15 < xs_size src \<Longrightarrow> xs_size src < 256 \<Longrightarrow>
   xs_allocate h1 (set_is_ptr src False) (xs_size src) = Inr (h2, d2) \<Longrightarrow>
   load h2 src (xs_data src) (xs_size src + 1) = Inr bs \<Longrightarrow>
   xs_cpy h dest src = store h2 d2 (xs_data d2) bs"
  by (simp add: xs_cpy_def Let_def LARGE_STRING_LEN_def STACK_SIZE_def)

lemma scan_front_0: "bs \<noteq> [] \<Longrightarrow> \<not> check_bit m (hd bs) \<Longrightarrow> scan_front m bs = 0"
  by (cases bs) simp_all

lemma cb97: "\<not> check_bit ((replicate 32 0)[4 := 1]) 97"
  by (simp add: check_bit_def)

lemma sized_255:
  "set_size_field [1, 0, 0, 0, 0, 0, 0, 0, 0, 1, 0, 0, 0, 0, 0, 63] 255 =
   [1, 0, 0, 0, 0, 0, 0, 0, 255, 0, 0, 0, 0, 0, 0, 63]"
  by (simp add: set_size_field_def)

lemma medium_cell_2: "medium_cell 2 = [2, 0, 0, 0, 0, 0, 0, 0, 0, 0, 0, 0, 0, 0, 0, 31]"
  by (simp add: medium_cell_def)

text \<open>
  C2.  A 256-byte string (255 times \<open>a\<close> and a space) is constructed and trimmed of
  spaces: the value stays in the Large representation, with length 255, content 255
  times \<open>a\<close> and reference count 1.  \<open>xs_cpy\<close> chooses its path by the length, not by
  the flag: for length 255 it takes the Medium path, allocates a second block and copies
  the bytes there.  The reference count of the source is still 1 afterwards, and the
  copy, whose \<open>size\<close> is never set, is a Medium value of length 0 with empty content.
\<close>

theorem copy_of_trimmed_large:
  "\<exists>h1 h2 h3.
     xs_new heap0 xs_literal_empty (replicate 255 97 @ [32]) =
       Inr (h1, [1, 0, 0, 0, 0, 0, 0, 0, 0, 1, 0, 0, 0, 0, 0, 63]) \<and>
     xs_trim h1 [1, 0, 0, 0, 0, 0, 0, 0, 0, 1, 0, 0, 0, 0, 0, 63] [32] =
       Inr (h2, [1, 0, 0, 0, 0, 0, 0, 0, 255, 0, 0, 0, 0, 0, 0, 63]) \<and>
     xs_repr [1, 0, 0, 0, 0, 0, 0, 0, 255, 0, 0, 0, 0, 0, 0, 63] = Some Large \<and>
     content h2 [1, 0, 0, 0, 0, 0, 0, 0, 255, 0, 0, 0, 0, 0, 0, 63] = Inr (replicate 255 97) \<and>
     xs_get_refcnt h2 [1, 0, 0, 0, 0, 0, 0, 0, 255, 0, 0, 0, 0, 0, 0, 63] = Inr 1 \<and>
     xs_cpy h2 xs_literal_empty [1, 0, 0, 0, 0, 0, 0, 0, 255, 0, 0, 0, 0, 0, 0, 63] =
       Inr (h3, [2, 0, 0, 0, 0, 0, 0, 0, 0, 0, 0, 0, 0, 0, 0, 31]) \<and>
     xs_get_refcnt h3 [1, 0, 0, 0, 0, 0, 0, 0, 255, 0, 0, 0, 0, 0, 0, 63] = Inr 1 \<and>
     xs_repr [2, 0, 0, 0, 0, 0, 0, 0, 0, 0, 0, 0, 0, 0, 0, 31] = Some Medium \<and>
     content h3 [2, 0, 0, 0, 0, 0, 0, 0, 0, 0, 0, 0, 0, 0, 0, 31] = Inr []"
proof -
  define p :: "byte list" where "p = replicate 255 97 @ [32]"
  define x :: xs where "x = [1, 0, 0, 0, 0, 0, 0, 0, 0, 1, 0, 0, 0, 0, 0, 63]"
  define x' :: xs where "x' = [1, 0, 0, 0, 0, 0, 0, 0, 255, 0, 0, 0, 0, 0, 0, 63]"
  define c0 where "c0 = write_fun 0 (le_bytes 4 1) (junk heap0)"
  define c1 where "c1 = write_fun 4 (p @ [0]) c0"
  define c2 where "c2 = write_fun 4 (replicate 255 97) c1"
  define c3 where "c3 = write_fun 259 [0] c2"
  define ha where "ha = heap0\<lparr>blocks := (blocks heap0)(fresh heap0 \<mapsto> (2 ^ 60 + 4, c0)),
                            fresh := fresh heap0 + 1\<rparr>"
  define h1 where "h1 = ha\<lparr>blocks := (blocks ha)(1 \<mapsto> (2 ^ 60 + 4, c1))\<rparr>"
  define h2 where "h2 = h1\<lparr>blocks := (blocks h1)(1 \<mapsto> (2 ^ 60 + 4, c2))\<rparr>"
  define h3 where "h3 = h2\<lparr>blocks := (blocks h2)(1 \<mapsto> (2 ^ 60 + 4, c3))\<rparr>"
  define h4 where "h4 = h3\<lparr>blocks := (blocks h3)(fresh h3 \<mapsto> (2 ^ 60, junk h3)),
                         fresh := fresh h3 + 1\<rparr>"
  define bs where "bs = map c3 [4..<4 + 256]"
  define h5 where "h5 = h4\<lparr>blocks := (blocks h4)(2 \<mapsto> (2 ^ 60, write_fun 0 bs (junk h3)))\<rparr>"
  have lp: "length p = 256" by (simp add: p_def)
  have fx: "xs_is_ptr x" "xs_is_large_string x" "ptr_field x = 1" "xs_data x = Mem 1 4"
    "xs_size x = 256"
    by (simp_all add: x_def xs_is_ptr_def xs_is_large_string_def ptr_field_def size_field_def
        xs_data_def xs_size_def)
  have fx': "xs_is_ptr x'" "xs_is_large_string x'" "ptr_field x' = 1" "xs_data x' = Mem 1 4"
    "xs_size x' = 255" "length x' = 16"
    by (simp_all add: x'_def xs_is_ptr_def xs_is_large_string_def ptr_field_def size_field_def
        xs_data_def xs_size_def)
  have sl: "strlen p = 256"
    by (simp add: strlen_def p_def takeWhile_eq_all_conv [THEN iffD2])
  have al: "xs_allocate heap0 xs_literal_empty 256 = Inr (ha, large_cell (fresh heap0))"
    unfolding ha_def c0_def by (rule alloc_large_ok) simp_all
  have ba: "blocks ha 1 = Some (2 ^ 60 + 4, c0)" by (simp add: ha_def)
  have st: "store ha (large_cell 1) (Mem 1 4) (p @ [0]) = Inr (h1, large_cell 1)"
    unfolding h1_def c1_def by (rule store_mem [OF ba]) (simp add: lp)
  have new: "xs_new heap0 xs_literal_empty p = Inr (h1, x)"
    using xs_new_eq [of heap0 xs_literal_empty p ha "large_cell 1" h1 "large_cell 1"] al st lp
    by (simp add: sl xs_data_def xs_set_size_def large_sized x_def)
  have b1: "blocks h1 1 = Some (2 ^ 60 + 4, c1)" by (simp add: h1_def)
  have r1: "read_int h1 1 = Inr 1"
    using read_int_block [OF b1]
    by (simp add: c1_def c0_def map4_write_fun_4 map4_write_fun_0 del: upt_Suc)
  have cow: "xs_cow_lazy_copy h1 x = Inr (h1, x, False)"
    by (rule cow_refcnt_le1 [of _ _ 1]) (use fx r1 in \<open>simp_all add: xs_get_refcnt_def\<close>)
  have ld: "load h1 x (xs_data x) (xs_size x) = Inr p"
  proof -
    have "map c1 [4..<4 + 256] = take 256 (p @ [0])"
      unfolding c1_def by (rule map_write_fun_same) (simp add: lp)
    then show ?thesis using load_mem [OF b1, of 4 256 x] fx lp by simp
  qed
  have ts: "strlen [32] = 1" by (simp add: strlen_def)
  have m: "set_bits (replicate 32 0) (take (strlen [32]) [32]) = (replicate 32 0)[4 := 1]"
    unfolding ts by (simp add: set_bit_mask_def)
  have i: "scan_front (set_bits (replicate 32 0) (take (strlen [32]) [32])) p = 0"
    unfolding m by (rule scan_front_0) (simp_all add: p_def cb97)
  have nth: "p ! 255 = 32" "p ! 254 = 97" by (simp_all add: p_def nth_append)
  have e1: "scan_back ((replicate 32 0)[4 := 1]) p (Suc 255) =
      scan_back ((replicate 32 0)[4 := 1]) p 255"
    by (subst scan_back.simps(2)) (simp add: nth cb32)
  have e2: "scan_back ((replicate 32 0)[4 := 1]) p (Suc 254) = Suc 254"
    by (subst scan_back.simps(2)) (simp add: nth cb97)
  from e1 e2 have "scan_back ((replicate 32 0)[4 := 1]) p 256 = 255" by simp
  then have b: "scan_back (set_bits (replicate 32 0) (take (strlen [32]) [32])) p (xs_size x) = 255"
    unfolding m using fx by simp
  have mv: "load h1 x (loc_add (xs_data x) 0) (sub64 255 0) = Inr (replicate 255 97)"
  proof -
    have "map c1 [4..<4 + 255] = take 255 (p @ [0])"
      unfolding c1_def by (rule map_write_fun_same) (simp add: lp)
    then show ?thesis using load_mem [OF b1, of 4 255 x] fx by (simp add: sub64_def p_def)
  qed
  have s1: "store h1 x (xs_data x) (replicate 255 97) = Inr (h2, x)"
    unfolding h2_def c2_def fx by (rule store_mem [OF b1]) simp
  have b2: "blocks h2 1 = Some (2 ^ 60 + 4, c2)" by (simp add: h2_def)
  have t: "load h2 x (loc_add (xs_data x) (sub64 255 0)) 1 = Inr [32]"
    using load_mem [OF b2, of 259 1 x] fx
    by (simp add: sub64_def c2_def c1_def write_fun_def p_def nth_append)
  have s2: "store h2 x (loc_add (xs_data x) (sub64 255 0)) [0] = Inr (h3, x)"
    unfolding h3_def c3_def using store_mem [OF b2, of 259 "[0]" x] fx by (simp add: sub64_def)
  have ne: "([32 :: byte] \<noteq> [0]) = True" by simp
  have "xs_set_size x (sub64 255 0) = set_size_field x 255"
    using fx(1) by (simp add: xs_set_size_def sub64_def)
  also have "\<dots> = x'" by (simp add: x_def x'_def sized_255)
  finally have fin: "xs_set_size x (sub64 255 0) = x'" .
  have trim: "xs_trim h1 x [32] = Inr (h3, x')"
    by (subst xs_trim_scan [OF _ cow ld i b])
       (simp add: ts, simp only: mv s1 t s2 ne fin bnd_Inr prod.case if_True)
  have rep: "xs_repr x' = Some Large" using fx' by (simp add: xs_repr_def)
  have b3: "blocks h3 1 = Some (2 ^ 60 + 4, c3)" by (simp add: h3_def)
  have c3_data: "map c3 [4..<4 + 255] = replicate 255 97"
  proof -
    have "map c3 [4..<4 + 255] = map c2 [4..<4 + 255]"
      unfolding c3_def by (rule map_write_fun_other) simp
    also have "\<dots> = take 255 (replicate 255 97)"
      unfolding c2_def by (rule map_write_fun_same) simp
    finally show ?thesis by simp
  qed
  have cont: "content h3 x' = Inr (replicate 255 97)"
    using load_mem [OF b3, of 4 255 x'] fx' c3_data by (simp add: content_def)
  have c3_cnt: "map c3 [0..<4] = le_bytes 4 1"
  proof -
    have "map c3 [0..<0 + 4] = map c2 [0..<0 + 4]"
      unfolding c3_def by (rule map_write_fun_other) simp
    then show ?thesis
      by (simp add: c2_def c1_def c0_def map4_write_fun_4 map4_write_fun_0 del: upt_Suc)
  qed
  have r3: "read_int h3 1 = Inr 1"
    using read_int_block [OF b3] by (simp add: c3_cnt del: upt_Suc)
  have get: "xs_get_refcnt h3 x' = Inr 1" using fx' r3 by (simp add: xs_get_refcnt_def)
  have np: "\<not> xs_is_ptr (set_is_ptr x' False)" "length (set_is_ptr x' False) = 16"
    by (simp_all add: x'_def set_is_ptr_def xs_is_ptr_def list_update_Cons_numeral)
  have fr: "fresh h3 = 2" "limit h3 = 2 ^ 62"
    by (simp_all add: h3_def h2_def h1_def ha_def)
  have al2: "xs_allocate h3 (set_is_ptr x' False) 255 = Inr (h4, medium_cell (fresh h3))"
    unfolding h4_def using np fr by (intro alloc_medium_ok) simp_all
  have b4: "blocks h4 1 = Some (2 ^ 60 + 4, c3)" "blocks h4 2 = Some (2 ^ 60, junk h3)"
    using b3 by (simp_all add: h4_def fr)
  have ld2: "load h4 x' (xs_data x') (xs_size x' + 1) = Inr bs"
    unfolding bs_def using load_mem [OF b4(1), of 4 256 x'] fx' by simp
  have lbs: "length bs = 256" by (simp add: bs_def)
  have s3: "store h4 (medium_cell 2) (xs_data (medium_cell 2)) bs = Inr (h5, medium_cell 2)"
    unfolding h5_def using store_mem [OF b4(2), of 0 bs "medium_cell 2"] lbs
    by (simp add: xs_data_def)
  have cpy: "xs_cpy h3 xs_literal_empty x' = Inr (h5, medium_cell 2)"
    using xs_cpy_medium_eq [of h3 xs_literal_empty h3 xs_literal_empty x' h4 "medium_cell 2" bs]
      al2 ld2 s3 fx' fr by (simp add: xs_free_inline)
  have b5: "blocks h5 1 = Some (2 ^ 60 + 4, c3)" "blocks h5 2 = Some (2 ^ 60, write_fun 0 bs (junk h3))"
    using b4 by (simp_all add: h5_def)
  have r5: "read_int h5 1 = Inr 1"
    using read_int_block [OF b5(1)] by (simp add: c3_cnt del: upt_Suc)
  have get5: "xs_get_refcnt h5 x' = Inr 1" using fx' r5 by (simp add: xs_get_refcnt_def)
  have rep2: "xs_repr (medium_cell 2) = Some Medium" by (simp add: xs_repr_def)
  have cont2: "content h5 (medium_cell 2) = Inr []"
    using b5(2) by (simp add: content_def xs_size_def xs_data_def load_def)
  show ?thesis
    using new trim rep cont get cpy get5 rep2 cont2
    unfolding p_def x_def x'_def medium_cell_2 by blast
qed

subsection \<open>The fields after a store\<close>

lemma m63: "(63 :: byte) = mask 6" by (simp add: mask_eq_exp_minus_1)
lemma m15: "(15 :: byte) = mask 4" by (simp add: mask_eq_exp_minus_1)
lemma m192: "(192 :: byte) = NOT (mask 6)" by (simp add: mask_eq_exp_minus_1 not_eq_complement)
lemma m240: "(240 :: byte) = NOT (mask 4)" by (simp add: mask_eq_exp_minus_1 not_eq_complement)

lemma low6_merge: "((a AND 192) OR (v AND 63)) AND 63 = v AND (63 :: byte)"
  unfolding m63 m192 by (rule bit_eqI) (auto simp: bit_simps)

lemma hi2_merge: "drop_bit 6 ((a AND 192) OR (v AND 63)) = drop_bit 6 (a :: byte)"
  unfolding m63 m192 by (rule bit_eqI) (auto simp: bit_simps dest: bit_imp_le_length)

lemma low4_merge: "((a AND 240) OR (v AND 15)) AND 15 = v AND (15 :: byte)"
  unfolding m15 m240 by (rule bit_eqI) (auto simp: bit_simps)

lemma bit4_merge: "bit ((a AND 240) OR (v AND 15)) 4 = bit (a :: byte) 4"
  unfolding m15 m240 by (auto simp: bit_simps)

lemma bit5_merge: "bit ((a AND 240) OR (v AND 15)) 5 = bit (a :: byte) 5"
  unfolding m15 m240 by (auto simp: bit_simps)

lemma unat_and63_of_nat: "unat (of_nat n AND 63 :: byte) = n mod 64"
proof -
  have "unat (of_nat n AND 63 :: byte) = unat (take_bit 6 (of_nat n :: byte))"
    by (simp add: take_bit_eq_mask m63)
  also have "\<dots> = take_bit 6 (n mod 256)"
    by (simp add: unsigned_take_bit_eq unat_of_nat)
  also have "\<dots> = n mod 64"
    by (simp add: take_bit_eq_mod mod_mod_cancel)
  finally show ?thesis .
qed

lemma unat_and15_of_nat: "unat (of_nat n AND 15 :: byte) = n mod 16"
proof -
  have "unat (of_nat n AND 15 :: byte) = unat (take_bit 4 (of_nat n :: byte))"
    by (simp add: take_bit_eq_mask m15)
  also have "\<dots> = take_bit 4 (n mod 256)"
    by (simp add: unsigned_take_bit_eq unat_of_nat)
  also have "\<dots> = n mod 16"
    by (simp add: take_bit_eq_mod mod_mod_cancel)
  finally show ?thesis .
qed


lemma set_size_field_nth:
  assumes "length x = 16"
  shows "length (set_size_field x s) = 16"
    and "set_size_field x s ! 15 = x ! 15"
    and "set_size_field x s ! 14 = (x ! 14 AND 192) OR (of_nat (s div 2 ^ 48) AND 63)"
    and "take 8 (set_size_field x s) = take 8 x"
    and "take 6 (drop 8 (set_size_field x s)) = le_bytes 6 s"
  using assms by (simp_all add: set_size_field_def nth_append del: le_bytes_numeral)

lemma set_size_field_fields:
  assumes "length x = 16"
  shows "xs_is_ptr (set_size_field x s) = xs_is_ptr x"
    and "xs_is_large_string (set_size_field x s) = xs_is_large_string x"
    and "capacity_field (set_size_field x s) = capacity_field x"
    and "ptr_field (set_size_field x s) = ptr_field x"
  unfolding xs_is_ptr_def xs_is_large_string_def capacity_field_def ptr_field_def
    set_size_field_nth [OF assms] hi2_merge
  by (rule refl)+

lemma size_field_set_size_field:
  assumes "length x = 16"
  shows "size_field (set_size_field x s) = s mod 2 ^ 54"
proof -
  have "size_field (set_size_field x s) =
      le_nat (le_bytes 6 s) + 2 ^ 48 * unat (of_nat (s div 2 ^ 48) AND 63 :: byte)"
    unfolding size_field_def set_size_field_nth [OF assms] low6_merge by (rule refl)
  also have "\<dots> = s mod 2 ^ 48 + 2 ^ 48 * (s div 2 ^ 48 mod 64)"
    by (simp add: unat_and63_of_nat le_nat_le_bytes del: le_bytes_numeral)
  also have "\<dots> = s mod (2 ^ 48 * 64)"
    using mod_mult2_eq [of s "2 ^ 48" 64] by simp
  finally show ?thesis by simp
qed

lemma set_space_left_fields:
  assumes "length x = 16"
  shows "length (set_space_left x v) = 16"
    and "xs_is_ptr (set_space_left x v) = xs_is_ptr x"
    and "xs_is_large_string (set_space_left x v) = xs_is_large_string x"
    and "space_left (set_space_left x v) = v mod 16"
  using assms
  by (simp_all add: set_space_left_def xs_is_ptr_def xs_is_large_string_def space_left_def
      bit4_merge bit5_merge low4_merge unat_and15_of_nat)

lemma xs_set_size_fields:
  assumes "length x = 16"
  shows "length (xs_set_size x s) = 16"
    and "xs_is_ptr (xs_set_size x s) = xs_is_ptr x"
    and "xs_capacity (xs_set_size x s) = xs_capacity x"
  using set_space_left_fields [OF assms] set_size_field_fields [OF assms]
    set_size_field_nth(1) [OF assms]
  by (simp_all add: xs_set_size_def xs_capacity_def)

lemma write_at_length:
  "length x = 16 \<Longrightarrow> off + length bs \<le> 16 \<Longrightarrow> length (write_at off bs x) = 16"
  by (simp add: write_at_def)

lemma write_at_nth_out:
  "length x = 16 \<Longrightarrow> off + length bs \<le> 16 \<Longrightarrow> i < 16 \<Longrightarrow>
   i < off \<or> off + length bs \<le> i \<Longrightarrow> write_at off bs x ! i = x ! i"
  by (auto simp: write_at_def nth_append)

lemma write_at_nth_in:
  "length x = 16 \<Longrightarrow> off + length bs \<le> 16 \<Longrightarrow> off \<le> i \<Longrightarrow> i < off + length bs \<Longrightarrow>
   write_at off bs x ! i = bs ! (i - off)"
  by (auto simp: write_at_def nth_append)

subsection \<open>The size limit\<close>


lemma bnd_eq_Inr: "bnd m f = Inr r \<longleftrightarrow> (\<exists>v. m = Inr v \<and> f v = Inr r)"
  by (cases m) simp_all













subsection \<open>What trim leaves of the cell\<close>

lemma store_cell_result:
  "store h x (Cell off) bs = Inr (h', x') \<Longrightarrow>
   h' = h \<and> x' = write_at off bs x \<and> off + length bs \<le> 16"
  by (auto simp: store_def split: if_splits)

lemma store_mem_result: "store h x (Mem a off) bs = Inr (h', x') \<Longrightarrow> x' = x"
  by (auto simp: store_def split: option.splits if_splits)

lemma load_cell_result:
  "load h x (Cell off) n = Inr bs \<Longrightarrow> off + n \<le> 16 \<and> bs = take n (drop off x)"
  by (auto simp: load_def split: if_splits)

lemma xs_data_cases:
  "(\<not> xs_is_ptr x \<and> xs_data x = Cell 0) \<or> (xs_is_ptr x \<and> (\<exists>a off. xs_data x = Mem a off))"
  by (simp add: xs_data_def)

text \<open>What \<open>xs_trim\<close> does after the copy-on-write check, as one relation.\<close>

lemma xs_trim_result:
  assumes "strlen ts \<noteq> 0" "xs_cow_lazy_copy h x = Inr (h0, x0, c)"
    and "xs_trim h x ts = Inr (h', x')"
  obtains bs i s1 moved h1 x1 t h2 x2 where
    "load h0 x0 (xs_data x0) (xs_size x0) = Inr bs"
    "i = scan_front (set_bits (replicate 32 0) (take (strlen ts) ts)) bs"
    "s1 = scan_back (set_bits (replicate 32 0) (take (strlen ts) ts)) bs (xs_size x0)"
    "load h0 x0 (loc_add (xs_data x0) i) (sub64 s1 i) = Inr moved"
    "store h0 x0 (xs_data x0) moved = Inr (h1, x1)"
    "load h1 x1 (loc_add (xs_data x0) (sub64 s1 i)) 1 = Inr t"
    "(if t \<noteq> [0] then store h1 x1 (loc_add (xs_data x0) (sub64 s1 i)) [0] else Inr (h1, x1))
       = Inr (h2, x2)"
    "x' = xs_set_size x2 (sub64 s1 i)" "h' = h2"
proof -
  from assms obtain bs where bs: "load h0 x0 (xs_data x0) (xs_size x0) = Inr bs"
    by (auto simp: xs_trim_def Let_def bnd_eq_Inr)
  define i where "i = scan_front (set_bits (replicate 32 0) (take (strlen ts) ts)) bs"
  define s1 where "s1 = scan_back (set_bits (replicate 32 0) (take (strlen ts) ts)) bs (xs_size x0)"
  have eq: "xs_trim h x ts =
     bnd (load h0 x0 (loc_add (xs_data x0) i) (sub64 s1 i)) (\<lambda>moved.
     bnd (store h0 x0 (xs_data x0) moved) (\<lambda>(h1, x1).
     bnd (load h1 x1 (loc_add (xs_data x0) (sub64 s1 i)) 1) (\<lambda>t.
     bnd (if t \<noteq> [0] then store h1 x1 (loc_add (xs_data x0) (sub64 s1 i)) [0]
          else Inr (h1, x1))
       (\<lambda>(h2, x2). Inr (h2, xs_set_size x2 (sub64 s1 i))))))"
    by (rule xs_trim_scan [OF assms(1,2) bs]) (simp_all add: i_def s1_def)
  from assms(3) [unfolded eq] obtain moved h1 x1 t h2 x2 where
    "load h0 x0 (loc_add (xs_data x0) i) (sub64 s1 i) = Inr moved"
    "store h0 x0 (xs_data x0) moved = Inr (h1, x1)"
    "load h1 x1 (loc_add (xs_data x0) (sub64 s1 i)) 1 = Inr t"
    "(if t \<noteq> [0] then store h1 x1 (loc_add (xs_data x0) (sub64 s1 i)) [0] else Inr (h1, x1))
       = Inr (h2, x2)"
    "x' = xs_set_size x2 (sub64 s1 i)" "h' = h2"
    by (auto simp: bnd_eq_Inr)
  then show ?thesis using that [OF bs i_def s1_def] by blast
qed


lemma xs_set_size_data:
  assumes "length x = 16"
  shows "xs_data (xs_set_size x s) = xs_data x"
  using set_space_left_fields [OF assms] set_size_field_fields [OF assms]
  by (simp add: xs_set_size_def xs_data_def)

lemma write_at_keeps_inline:
  assumes "length x = 16" "\<not> xs_is_ptr x" "off + length bs \<le> 15"
  shows "length (write_at off bs x) = 16" "\<not> xs_is_ptr (write_at off bs x)"
proof -
  show "length (write_at off bs x) = 16" using assms by (simp add: write_at_length)
  have "write_at off bs x ! 15 = x ! 15"
    using assms by (intro write_at_nth_out) simp_all
  then show "\<not> xs_is_ptr (write_at off bs x)" using assms(2) by (simp add: xs_is_ptr_def)
qed

lemma write_at_zero_keeps_inline:
  assumes "length x = 16" "\<not> xs_is_ptr x" "off + 1 \<le> 16"
  shows "length (write_at off [0] x) = 16" "\<not> xs_is_ptr (write_at off [0] x)"
proof -
  show "length (write_at off [0] x) = 16" using assms by (simp add: write_at_length)
  show "\<not> xs_is_ptr (write_at off [0] x)"
  proof (cases "off = 15")
    case True
    have "write_at off [0] x ! 15 = [0] ! (15 - off)"
      using assms True by (intro write_at_nth_in) simp_all
    then show ?thesis using True by (simp add: xs_is_ptr_def)
  next
    case False
    then show ?thesis using assms write_at_keeps_inline(2) [of x off "[0]"] by simp
  qed
qed

lemma xs_trim_after_cow:
  assumes len: "length x0 = 16" and ts: "strlen ts \<noteq> 0"
    and cow: "xs_cow_lazy_copy h x = Inr (h0, x0, c)"
    and trim: "xs_trim h x ts = Inr (h', x')"
  shows "length x' = 16 \<and> xs_is_ptr x' = xs_is_ptr x0 \<and> xs_capacity x' = xs_capacity x0 \<and>
         xs_data x' = xs_data x0"
proof -
  show ?thesis
  proof (rule xs_trim_result [OF ts cow trim])
  fix bs i s1 moved h1 x1 t h2 x2
  assume mv: "load h0 x0 (loc_add (xs_data x0) i) (sub64 s1 i) = Inr moved"
    and st: "store h0 x0 (xs_data x0) moved = Inr (h1, x1)"
    and tl: "load h1 x1 (loc_add (xs_data x0) (sub64 s1 i)) 1 = Inr t"
    and tz: "(if t \<noteq> [0] then store h1 x1 (loc_add (xs_data x0) (sub64 s1 i)) [0]
              else Inr (h1, x1)) = Inr (h2, x2)"
    and x': "x' = xs_set_size x2 (sub64 s1 i)"
  have "length x2 = 16 \<and> xs_is_ptr x2 = xs_is_ptr x0 \<and> xs_capacity x2 = xs_capacity x0 \<and>
        xs_data x2 = xs_data x0"
  proof (cases "xs_is_ptr x0")
    case True
    then obtain a off where d: "xs_data x0 = Mem a off" using xs_data_cases [of x0] by auto
    have "x1 = x0" using st unfolding d by (rule store_mem_result)
    moreover have "x2 = x1"
    proof (cases "t \<noteq> [0]")
      case True
      with tz have "store h1 x1 (Mem a (off + sub64 s1 i)) [0] = Inr (h2, x2)"
        unfolding d by simp
      then show ?thesis by (rule store_mem_result)
    next
      case False
      with tz show ?thesis by simp
    qed
    ultimately show ?thesis using len by simp
  next
    case False
    then have d: "xs_data x0 = Cell 0" using xs_data_cases [of x0] by auto
    from mv have mv': "load h0 x0 (Cell i) (sub64 s1 i) = Inr moved" unfolding d by simp
    have m: "i + sub64 s1 i \<le> 16" "moved = take (sub64 s1 i) (drop i x0)"
      using load_cell_result [OF mv'] by simp_all
    then have lm: "length moved = sub64 s1 i" using len by simp
    from st have st': "store h0 x0 (Cell 0) moved = Inr (h1, x1)" unfolding d .
    have x1: "x1 = write_at 0 moved x0" using store_cell_result [OF st'] by simp
    from tl have tl': "load h1 x1 (Cell (sub64 s1 i)) 1 = Inr t" unfolding d by simp
    have s15: "sub64 s1 i + 1 \<le> 16" using load_cell_result [OF tl'] by simp
    have k1: "length x1 = 16" "\<not> xs_is_ptr x1"
      unfolding x1 using write_at_keeps_inline [OF len False, of 0 moved] lm s15 by simp_all
    have k2: "length x2 = 16 \<and> \<not> xs_is_ptr x2"
    proof (cases "t \<noteq> [0]")
      case True
      with tz have "store h1 x1 (Cell (sub64 s1 i)) [0] = Inr (h2, x2)" unfolding d by simp
      then have "x2 = write_at (sub64 s1 i) [0] x1" using store_cell_result by blast
      then show ?thesis using write_at_zero_keeps_inline [OF k1 s15] by simp
    next
      case False
      then show ?thesis using tz k1 by simp
    qed
    then show ?thesis using False by (simp add: xs_capacity_def xs_data_def)
  qed
  then show ?thesis
    unfolding x'
    using xs_set_size_fields [of x2 "sub64 s1 i"] xs_set_size_data [of x2 "sub64 s1 i"] by simp
  qed
qed

subsection \<open>Trim and the capacity\<close>

lemma xs_cow_copy_eq:
  "xs_get_refcnt h x = Inr r \<Longrightarrow> \<not> sint r \<le> 1 \<Longrightarrow> xs_dec_refcnt h x = Inr (h1, r1) \<Longrightarrow>
   xs_allocate h1 (set_is_ptr x False) (xs_size (set_is_ptr x False)) = Inr (h2, x2) \<Longrightarrow>
   load h2 x2 (xs_data x) (size_field x2 + 1) = Inr bs \<Longrightarrow>
   store h2 x2 (xs_data x2) bs = Inr (h3, x3) \<Longrightarrow>
   xs_cow_lazy_copy h x = Inr (h3, x3, True)"
  by (simp add: xs_cow_lazy_copy_def Let_def)

text \<open>
  C9, as stated, fails.  \<open>shared_cell\<close> is a Large value of length 300 and capacity
  511 whose buffer is shared (reference count 2).  \<open>xs_trim\<close> with the set \<open>" "\<close>
  first runs the copy-on-write check, which gives the cell storage of its own; the
  call returns the empty inline cell, whose capacity is 15.
\<close>

theorem trim_shared_changes_capacity:
  "xs_repr shared_cell = Some Large \<and> xs_size shared_cell = 300 \<and>
   xs_capacity shared_cell = 511 \<and>
   xs_get_refcnt shared_heap shared_cell = Inr 2 \<and>
   content shared_heap shared_cell = Inr (replicate 300 97) \<and>
   (\<exists>h'. xs_trim shared_heap shared_cell [32] = Inr (h', xs_literal_empty)) \<and>
   xs_capacity xs_literal_empty = 15"
proof -
  define c where "c = write_fun 0 [2, 0, 0, 0] (write_fun 4 (replicate 300 97 @ [0]) (\<lambda>i. 0 :: byte))"
  define c' where "c' = write_fun 0 (le_bytes 4 (unat (1 :: 32 word))) c"
  define h1 where "h1 = shared_heap\<lparr>blocks := (blocks shared_heap)(1 \<mapsto> (516, c'))\<rparr>"
  define y :: xs where "y = [97, 0, 0, 0, 0, 0, 0, 0, 0, 0, 0, 0, 0, 0, 0, 15]"
  have f: "xs_is_ptr shared_cell" "xs_is_large_string shared_cell" "ptr_field shared_cell = 1"
    "xs_data shared_cell = Mem 1 4" "xs_size shared_cell = 300" "capacity_field shared_cell = 9"
    by (simp_all add: shared_cell_def xs_is_ptr_def xs_is_large_string_def ptr_field_def
        size_field_def xs_data_def xs_size_def capacity_field_def)
  have rep: "xs_repr shared_cell = Some Large" using f by (simp add: xs_repr_def)
  have cap: "xs_capacity shared_cell = 511" using f by (simp add: xs_capacity_def)
  have b: "blocks shared_heap 1 = Some (516, c)" by (simp add: shared_heap_def c_def)
  have r: "read_int shared_heap 1 = Inr 2"
    using read_int_block [OF b] by (simp add: c_def map4_write_fun_0 del: upt_Suc)
  have get: "xs_get_refcnt shared_heap shared_cell = Inr 2" using f r by (simp add: xs_get_refcnt_def)
  have cont: "content shared_heap shared_cell = Inr (replicate 300 97)"
  proof -
    have "map c [4..<4 + 300] = map (write_fun 4 (replicate 300 97 @ [0]) (\<lambda>i. 0)) [4..<4 + 300]"
      unfolding c_def by (rule map_write_fun_other) simp
    also have "\<dots> = take 300 (replicate 300 97 @ [0])"
      by (rule map_write_fun_same) simp
    finally have "map c [4..<4 + 300] = replicate 300 97" by simp
    then show ?thesis using load_mem [OF b, of 4 300 shared_cell] f by (simp add: content_def)
  qed
  have w: "write_int shared_heap 1 (2 - 1) = Inr h1"
    unfolding h1_def c'_def using write_int_block [OF b, of 1] by simp
  have dec: "xs_dec_refcnt shared_heap shared_cell = Inr (h1, 1)"
    using f r w by (simp add: xs_dec_refcnt_def)
  have np: "\<not> xs_is_ptr (set_is_ptr shared_cell False)" "length (set_is_ptr shared_cell False) = 16"
    "xs_size (set_is_ptr shared_cell False) = 13"
    by (simp_all add: shared_cell_def set_is_ptr_def xs_is_ptr_def xs_size_def space_left_def
        STACK_SIZE_def list_update_Cons_numeral)
  have al: "xs_allocate h1 (set_is_ptr shared_cell False) (xs_size (set_is_ptr shared_cell False))
      = Inr (h1, xs_literal_empty)"
    unfolding np(3) using np(1,2) by (intro alloc_inline_ok) simp_all
  have b1: "blocks h1 1 = Some (516, c')" by (simp add: h1_def)
  have ld: "load h1 xs_literal_empty (xs_data shared_cell) (size_field xs_literal_empty + 1) = Inr [97]"
    using load_mem [OF b1, of 4 1 xs_literal_empty] f
    by (simp add: size_field_def xs_literal_empty_def c'_def c_def write_fun_def nth_append)
  have st: "store h1 xs_literal_empty (xs_data xs_literal_empty) [97] = Inr (h1, y)"
    by (simp add: store_def xs_data_def write_at_def y_def) (simp add: xs_literal_empty_def)
  have cow: "xs_cow_lazy_copy shared_heap shared_cell = Inr (h1, y, True)"
    by (rule xs_cow_copy_eq [OF get _ dec al ld st]) simp
  have fy: "\<not> xs_is_ptr y" "xs_size y = 0" "xs_data y = Cell 0"
    by (simp_all add: y_def xs_is_ptr_def xs_size_def space_left_def STACK_SIZE_def xs_data_def)
  have ts: "strlen [32] = 1" by (simp add: strlen_def)
  have l0: "load h1 y (xs_data y) (xs_size y) = Inr []" unfolding fy by (simp add: load_def)
  have i: "scan_front (set_bits (replicate 32 0) (take (strlen [32]) [32])) [] = 0" by simp
  have s: "scan_back (set_bits (replicate 32 0) (take (strlen [32]) [32])) [] (xs_size y) = 0"
    unfolding fy by simp
  have mv: "load h1 y (loc_add (xs_data y) 0) (sub64 0 0) = Inr []"
    unfolding fy by (simp add: load_def sub64_def)
  have s1: "store h1 y (xs_data y) [] = Inr (h1, y)"
    unfolding fy by (simp add: store_def write_at_def)
  have t: "load h1 y (loc_add (xs_data y) (sub64 0 0)) 1 = Inr [97]"
    unfolding fy by (simp add: load_def sub64_def y_def)
  have s2: "store h1 y (loc_add (xs_data y) (sub64 0 0)) [0] =
      Inr (h1, [0, 0, 0, 0, 0, 0, 0, 0, 0, 0, 0, 0, 0, 0, 0, 15])"
    unfolding fy by (simp add: store_def sub64_def write_at_def y_def)
  have ne: "([97 :: byte] \<noteq> [0]) = True" by simp
  have fin: "xs_set_size [0, 0, 0, 0, 0, 0, 0, 0, 0, 0, 0, 0, 0, 0, 0, 15] (sub64 0 0) =
      xs_literal_empty"
    by (simp add: xs_set_size_def xs_is_ptr_def set_space_left_def sub64_def STACK_SIZE_def
        xs_literal_empty_def list_update_Cons_numeral)
  have trim: "xs_trim shared_heap shared_cell [32] = Inr (h1, xs_literal_empty)"
    by (subst xs_trim_scan [OF _ cow l0 i s])
       (simp add: ts, simp only: mv s1 t s2 ne fin bnd_Inr prod.case if_True)
  have cap2: "xs_capacity xs_literal_empty = 15" by (simp add: xs_capacity_def)
  show ?thesis using rep f(5) cap get cont trim cap2 by blast
qed

text \<open>The demonstration of the source: trimming newlines and spaces off an inline string.\<close>

lemma trim_demo:
  "xs_trim heap0 [10, 32, 102, 111, 111, 98, 97, 114, 98, 97, 114, 32, 10, 10, 10, 0] [10, 32] =
     Inr (heap0, [102, 111, 111, 98, 97, 114, 98, 97, 114, 0, 114, 32, 10, 10, 10, 6])"
proof -
  define x :: xs where "x = [10, 32, 102, 111, 111, 98, 97, 114, 98, 97, 114, 32, 10, 10, 10, 0]"
  define x' :: xs where "x' = [102, 111, 111, 98, 97, 114, 98, 97, 114, 0, 114, 32, 10, 10, 10, 6]"
  define m :: "byte list" where "m = (replicate 32 0)[1 := 4, 4 := 1]"
  define bs :: "byte list" where
    "bs = [10, 32, 102, 111, 111, 98, 97, 114, 98, 97, 114, 32, 10, 10, 10]"
  have len: "length x = 16" by (simp add: x_def)
  have fx: "\<not> xs_is_ptr x" "\<not> xs_is_large_string x" "xs_size x = 15" "xs_data x = Cell 0"
    by (simp_all add: x_def xs_is_ptr_def xs_is_large_string_def xs_size_def space_left_def
        STACK_SIZE_def xs_data_def)
  have get: "xs_get_refcnt heap0 x = Inr 0" using fx by (simp add: xs_get_refcnt_def)
  have ts: "strlen [10, 32] = 2" by (simp add: strlen_def)
  have mk: "set_bits (replicate 32 0) (take (strlen [10, 32]) [10, 32]) = m"
    unfolding ts by (simp add: set_bit_mask_def m_def)
  have cb: "check_bit m 10" "check_bit m 32" "\<not> check_bit m 102" "\<not> check_bit m 114"
    by (simp_all add: check_bit_def m_def)
  have ld: "load heap0 x (xs_data x) (xs_size x) = Inr bs"
    unfolding fx by (simp add: load_def x_def bs_def)
  have i: "scan_front (set_bits (replicate 32 0) (take (strlen [10, 32]) [10, 32])) bs = 2"
    unfolding mk using cb by (simp add: bs_def)
  have "scan_back m bs (Suc (Suc (Suc (Suc (Suc 10))))) = Suc 10"
    using cb by (simp add: bs_def eval_nat_numeral)
  then have s: "scan_back (set_bits (replicate 32 0) (take (strlen [10, 32]) [10, 32])) bs
      (xs_size x) = 11"
    unfolding mk fx by (simp add: eval_nat_numeral)
  have mv: "load heap0 x (loc_add (xs_data x) 2) (sub64 11 2) =
      Inr [102, 111, 111, 98, 97, 114, 98, 97, 114]"
    unfolding fx by (simp add: load_def sub64_def x_def)
  have s1: "store heap0 x (xs_data x) [102, 111, 111, 98, 97, 114, 98, 97, 114] =
      Inr (heap0, [102, 111, 111, 98, 97, 114, 98, 97, 114, 97, 114, 32, 10, 10, 10, 0])"
    unfolding fx by (simp add: store_def write_at_def x_def)
  have t: "load heap0 [102, 111, 111, 98, 97, 114, 98, 97, 114, 97, 114, 32, 10, 10, 10, 0]
      (loc_add (xs_data x) (sub64 11 2)) 1 = Inr [97]"
    unfolding fx by (simp add: load_def sub64_def)
  have s2: "store heap0 [102, 111, 111, 98, 97, 114, 98, 97, 114, 97, 114, 32, 10, 10, 10, 0]
      (loc_add (xs_data x) (sub64 11 2)) [0] =
      Inr (heap0, [102, 111, 111, 98, 97, 114, 98, 97, 114, 0, 114, 32, 10, 10, 10, 0])"
    unfolding fx by (simp add: store_def sub64_def write_at_def)
  have ne: "([97 :: byte] \<noteq> [0]) = True" by simp
  have fin: "xs_set_size [102, 111, 111, 98, 97, 114, 98, 97, 114, 0, 114, 32, 10, 10, 10, 0]
      (sub64 11 2) = x'"
    by (simp add: xs_set_size_def xs_is_ptr_def set_space_left_def sub64_def STACK_SIZE_def
        x'_def list_update_Cons_numeral)
  have tr: "xs_trim heap0 x [10, 32] = Inr (heap0, x')"
    by (subst xs_trim_scan [OF _ cow_unshared [OF fx(2)] ld i s])
       (simp add: ts, simp only: mv s1 t s2 ne fin bnd_Inr prod.case if_True)
  show ?thesis using tr unfolding x_def x'_def .
qed

text \<open>
  C9, amended.  For every cell that the copy-on-write check does not copy (its reference
  count as \<open>xs_get_refcnt\<close> reads it is at most 1, which holds for every Inline and
  Medium value), whenever \<open>xs_trim\<close> returns, the capacity afterwards is the capacity
  before, and the data pointer is the same (the inline storage, or the same heap
  buffer), whatever the set and however many bytes were removed.
\<close>

theorem trim_keeps_capacity:
  assumes "length x = 16" "xs_get_refcnt h x = Inr r" "sint r \<le> 1"
    and "xs_trim h x ts = Inr (h', x')"
  shows "xs_capacity x' = xs_capacity x \<and> xs_data x' = xs_data x"
proof (cases "strlen ts = 0")
  case True
  then show ?thesis using assms(4) by (simp add: xs_trim_def)
next
  case False
  have cow: "xs_cow_lazy_copy h x = Inr (h, x, False)"
    using assms(2,3) by (rule cow_refcnt_le1)
  show ?thesis using xs_trim_after_cow [OF assms(1) False cow assms(4)] by simp
qed


theorem trim_keeps_capacity_witness:
  "length [10, 32, 102, 111, 111, 98, 97, 114, 98, 97, 114, 32, 10, 10, 10, 0 :: byte] = 16 \<and>
   xs_get_refcnt heap0 [10, 32, 102, 111, 111, 98, 97, 114, 98, 97, 114, 32, 10, 10, 10, 0] = Inr 0 \<and>
   sint (0 :: 32 word) \<le> 1 \<and>
   xs_trim heap0 [10, 32, 102, 111, 111, 98, 97, 114, 98, 97, 114, 32, 10, 10, 10, 0] [10, 32] =
     Inr (heap0, [102, 111, 111, 98, 97, 114, 98, 97, 114, 0, 114, 32, 10, 10, 10, 6]) \<and>
   xs_capacity [102, 111, 111, 98, 97, 114, 98, 97, 114, 0, 114, 32, 10, 10, 10, 6] =
     xs_capacity [10, 32, 102, 111, 111, 98, 97, 114, 98, 97, 114, 32, 10, 10, 10, 0] \<and>
   xs_data [102, 111, 111, 98, 97, 114, 98, 97, 114, 0, 114, 32, 10, 10, 10, 6] =
     xs_data [10, 32, 102, 111, 111, 98, 97, 114, 98, 97, 114, 32, 10, 10, 10, 0]"
proof -
  define x :: xs where "x = [10, 32, 102, 111, 111, 98, 97, 114, 98, 97, 114, 32, 10, 10, 10, 0]"
  define x' :: xs where "x' = [102, 111, 111, 98, 97, 114, 98, 97, 114, 0, 114, 32, 10, 10, 10, 6]"
  have len: "length x = 16" by (simp add: x_def)
  have fx: "\<not> xs_is_ptr x" "\<not> xs_is_large_string x"
    by (simp_all add: x_def xs_is_ptr_def xs_is_large_string_def)
  have get: "xs_get_refcnt heap0 x = Inr 0" using fx by (simp add: xs_get_refcnt_def)
  have tr: "xs_trim heap0 x [10, 32] = Inr (heap0, x')"
    unfolding x_def x'_def by (rule trim_demo)
  show ?thesis
    using trim_keeps_capacity [OF len get _ tr] len get tr unfolding x_def x'_def by simp
qed

subsection \<open>The capacity covers the length\<close>

lemma cap_inv_inline: "\<not> xs_is_ptr x \<Longrightarrow> cap_inv x"
  by (simp add: cap_inv_def xs_size_def xs_capacity_def STACK_SIZE_def)

lemma cap_inv_60: "xs_is_ptr x \<Longrightarrow> capacity_field x = 60 \<Longrightarrow> cap_inv x"
  using size_field_lt [of x] by (simp add: cap_inv_def xs_size_def xs_capacity_def)

lemma cap_inv_fresh:
  "cap_inv xs_literal_empty" "cap_inv (medium_cell p)" "cap_inv (large_cell p)"
  by (simp_all add: cap_inv_inline cap_inv_60)

lemma cap_inv_set_size_field:
  assumes "length x = 16" "xs_is_ptr x" "capacity_field x = 60"
  shows "cap_inv (set_size_field x s)"
  using set_size_field_fields [OF assms(1), of s] assms by (intro cap_inv_60) simp_all

lemma load_length: "load h x l n = Inr bs \<Longrightarrow> length bs \<le> n"
  by (auto simp: load_def split: loc.splits option.splits if_splits)

lemma load_mem_length: "load h x (Mem a off) n = Inr bs \<Longrightarrow> length bs = n"
  by (auto simp: load_def split: option.splits if_splits)

lemma load_cell_length:
  "length x = 16 \<Longrightarrow> load h x (Cell off) n = Inr bs \<Longrightarrow> length bs = n \<and> off + n \<le> 16"
  by (auto simp: load_def split: if_splits)

lemma write_at_Nil [simp]: "off \<le> length x \<Longrightarrow> write_at off [] x = x"
  by (simp add: write_at_def)

text \<open>\<open>xs_grow\<close> returns the cell it was given, or a cell fresh from \<open>xs_allocate\<close>.\<close>

lemma xs_grow_cases:
  assumes "xs_grow h x n = Inr (h', x')"
  shows "(n \<le> xs_capacity x \<and> x' = x \<and> h' = h) \<or>
         (xs_capacity x < n \<and> (x' = xs_literal_empty \<or> (\<exists>p. x' = medium_cell p) \<or>
            (\<exists>p. x' = large_cell p)) \<and>
          (15 < n \<longrightarrow> x' \<noteq> xs_literal_empty))"
proof (cases "n \<le> xs_capacity x")
  case True
  then show ?thesis using assms by (simp add: xs_grow_def)
next
  case False
  define x1 where "x1 = (if xs_is_ptr x then set_is_ptr x False else x)"
  from assms False obtain h1 x2 bs h2 where
    al: "xs_allocate h x1 n = Inr (h1, x2)"
    and ld: "load h1 x (if xs_is_ptr x then xs_data x else Cell 0) (xs_size x2) = Inr bs"
    and st: "store h1 x2 (xs_data x2) bs = Inr (h2, x')"
    by (auto simp: xs_grow_def Let_def bnd_eq_Inr x1_def)
  from xs_allocate_cases [OF al] show ?thesis
  proof (elim disjE conjE exE)
    assume n: "n \<le> 15" and x2: "x2 = xs_literal_empty"
    have "xs_size x2 = 0"
      by (simp add: x2 xs_size_def space_left_def STACK_SIZE_def xs_literal_empty_def
          xs_is_ptr_def)
    with ld have "bs = []" using load_length by fastforce
    with st have "x' = xs_literal_empty"
      by (simp add: x2 xs_data_def store_def)
    then show ?thesis using False n by simp
  next
    fix p assume n: "15 < n" and x2: "x2 = medium_cell p"
    have "x' = x2" using st unfolding x2 by (simp add: xs_data_def) (rule store_mem_result)
    then show ?thesis using False n x2
      by (auto simp: medium_cell_def xs_literal_empty_def)
  next
    fix p assume n: "256 \<le> n" and x2: "x2 = large_cell p"
    have "x' = x2" using st unfolding x2 by (simp add: xs_data_def) (rule store_mem_result)
    then show ?thesis using False n x2
      by (auto simp: large_cell_def xs_literal_empty_def)
  qed
qed

lemma xs_grow_cap_inv:
  "cap_inv x \<Longrightarrow> xs_grow h x n = Inr (h', x') \<Longrightarrow> cap_inv x'"
  using xs_grow_cases [of h x n h' x'] by (auto simp: cap_inv_fresh)

lemma xs_free_cap_inv: "xs_free h x = Inr (h', x') \<Longrightarrow> cap_inv x'"
  by (auto dest: xs_free_cell simp: cap_inv_fresh)


lemma xs_new_cap_inv:
  assumes "xs_new h x p = Inr (h', x')"
  shows "cap_inv x'"
proof -
  define n where "n = strlen p"
  from assms obtain h1 x1 h2 x2 where
    al: "xs_allocate h x n = Inr (h1, x1)"
    and st: "store h1 x1 (xs_data x1) (take n p @ [0]) = Inr (h2, x2)"
    and x': "x' = xs_set_size x2 n"
    by (auto simp: xs_new_def Let_def bnd_eq_Inr n_def)
  from xs_allocate_cases [OF al] show ?thesis
  proof (elim disjE conjE exE)
    assume "n \<le> 15" and x1: "x1 = xs_literal_empty"
    from st have st': "store h1 xs_literal_empty (Cell 0) (take n p @ [0]) = Inr (h2, x2)"
      by (simp add: x1 xs_data_def)
    have x2: "x2 = write_at 0 (take n p @ [0]) xs_literal_empty"
      and le: "0 + length (take n p @ [0]) \<le> 16"
      using store_cell_result [OF st'] by simp_all
    have l2: "length x2 = 16" unfolding x2 using le by (simp add: write_at_length)
    have "x2 ! 15 = 0 \<or> x2 ! 15 = 15"
    proof (cases "length (take n p @ [0]) = 16")
      case True
      have "x2 ! 15 = (take n p @ [0]) ! (15 - 0)"
        unfolding x2 using True by (intro write_at_nth_in) simp_all
      also have "\<dots> = 0" using True by (simp add: nth_append)
      finally show ?thesis by simp
    next
      case False
      have "x2 ! 15 = xs_literal_empty ! 15"
        unfolding x2 using False le by (intro write_at_nth_out) simp_all
      then show ?thesis by (simp add: xs_literal_empty_def)
    qed
    then have "\<not> xs_is_ptr x2" by (auto simp: xs_is_ptr_def)
    then have "\<not> xs_is_ptr x'" unfolding x' using xs_set_size_fields(2) [OF l2] by simp
    then show ?thesis by (rule cap_inv_inline)
  next
    fix q assume x1: "x1 = medium_cell q"
    have x2: "x2 = medium_cell q"
      using st unfolding x1 by (simp add: xs_data_def) (rule store_mem_result)
    show ?thesis unfolding x' x2
      by (simp add: xs_set_size_def cap_inv_set_size_field)
  next
    fix q assume x1: "x1 = large_cell q"
    have x2: "x2 = large_cell q"
      using st unfolding x1 by (simp add: xs_data_def) (rule store_mem_result)
    show ?thesis unfolding x' x2
      by (simp add: xs_set_size_def cap_inv_set_size_field)
  qed
qed

lemma xs_cpy_cap_inv:
  assumes "cap_inv src" "xs_cpy h dest src = Inr (h', x')"
  shows "cap_inv x'"
proof -
  from assms(2) obtain h1 d0 where fr: "xs_free h dest = Inr (h1, d0)"
    by (auto simp: xs_cpy_def bnd_eq_Inr)
  consider "256 \<le> xs_size src" | "15 < xs_size src" "xs_size src < 256" | "xs_size src \<le> 15"
    by linarith
  then show ?thesis
  proof cases
    case 1
    then have "x' = src"
      using assms(2) fr by (auto simp: xs_cpy_def Let_def bnd_eq_Inr LARGE_STRING_LEN_def)
    then show ?thesis using assms(1) by simp
  next
    case 2
    then obtain h2 d2 bs where
      al: "xs_allocate h1 (set_is_ptr src False) (xs_size src) = Inr (h2, d2)"
      and st: "store h2 d2 (xs_data d2) bs = Inr (h', x')"
      using assms(2) fr
      by (auto simp: xs_cpy_def Let_def bnd_eq_Inr LARGE_STRING_LEN_def STACK_SIZE_def)
    from xs_allocate_cases [OF al] 2 obtain q where d2: "d2 = medium_cell q" by auto
    have "x' = d2" using st unfolding d2 by (simp add: xs_data_def) (rule store_mem_result)
    then show ?thesis by (simp add: d2 cap_inv_fresh)
  next
    case 3
    then have "x' = src"
      using assms(2) fr
      by (auto simp: xs_cpy_def Let_def bnd_eq_Inr LARGE_STRING_LEN_def STACK_SIZE_def)
    then show ?thesis using assms(1) by simp
  qed
qed

text \<open>
  The copy-on-write check returns the cell and the heap as they are, or an inline cell
  and the heap in which only the reference count has been decremented.
\<close>

lemma alloc_inline_result:
  assumes "\<not> xs_is_ptr x" "length x = 16" "len \<le> 15" "xs_allocate h x len = Inr (h', x')"
  shows "h' = h \<and> x' = xs_literal_empty"
proof (cases "len = 0")
  case True
  then show ?thesis using assms(4) by (simp add: xs_allocate_0)
next
  case False
  then show ?thesis using alloc_inline_ok [OF assms(1-3), of h] assms(4) by simp
qed

lemma xs_cow_cases:
  assumes "length x = 16" "xs_cow_lazy_copy h x = Inr (h0, x0, c)"
  shows "(h0 = h \<and> x0 = x) \<or>
         (\<not> xs_is_ptr x0 \<and> length x0 = 16 \<and> (\<exists>r. xs_dec_refcnt h x = Inr (h0, r)))"
proof -
  from assms(2) obtain r where r: "xs_get_refcnt h x = Inr r"
    by (auto simp: xs_cow_lazy_copy_def bnd_eq_Inr)
  show ?thesis
  proof (cases "sint r \<le> 1")
    case True
    then show ?thesis using assms(2) r by (simp add: xs_cow_lazy_copy_def)
  next
    case False
    define x1 where "x1 = set_is_ptr x False"
    from assms(2) r False obtain h1 r1 h2 x2 bs where
      dec: "xs_dec_refcnt h x = Inr (h1, r1)"
      and al: "xs_allocate h1 x1 (xs_size x1) = Inr (h2, x2)"
      and ld: "load h2 x2 (xs_data x) (size_field x2 + 1) = Inr bs"
      and st: "store h2 x2 (xs_data x2) bs = Inr (h0, x0)"
      by (auto simp: xs_cow_lazy_copy_def Let_def bnd_eq_Inr x1_def)
    have np: "\<not> xs_is_ptr x1" "length x1 = 16"
      using assms(1) by (simp_all add: x1_def set_is_ptr_def xs_is_ptr_def bit_simps)
    then have "xs_size x1 \<le> 15" by (simp add: xs_size_def STACK_SIZE_def)
    from alloc_inline_result [OF np this al] have x2: "x2 = xs_literal_empty" and h2: "h2 = h1"
      by simp_all
    have "size_field xs_literal_empty + 1 = 1"
      by (simp add: size_field_def xs_literal_empty_def)
    with ld have lb: "length bs \<le> 1" unfolding x2 using load_length by fastforce
    from st have st': "store h2 xs_literal_empty (Cell 0) bs = Inr (h0, x0)"
      by (simp add: x2 xs_data_def)
    have "h0 = h2" "x0 = write_at 0 bs xs_literal_empty"
      using store_cell_result [OF st'] by simp_all
    moreover have "length (write_at 0 bs xs_literal_empty) = 16"
      "\<not> xs_is_ptr (write_at 0 bs xs_literal_empty)"
      using lb by (simp_all add: write_at_keeps_inline)
    ultimately show ?thesis using dec h2 by auto
  qed
qed

lemma scan_front_le: "scan_front m bs \<le> length bs"
  by (induction bs) simp_all

lemma scan_back_le: "scan_back m bs n \<le> n"
  by (induction n) simp_all

lemma load_mem_bound: "load h x (Mem a off) n = Inr bs \<Longrightarrow> off + n < 2 ^ 64"
proof -
  assume "load h x (Mem a off) n = Inr bs"
  then obtain sz :: "64 word" where "off + n \<le> unat sz"
    by (auto simp: load_def split: option.splits if_splits)
  moreover have "unat sz < 2 ^ 64" using unsigned_less [of sz, where ?'a = nat] by simp
  ultimately show ?thesis by linarith
qed

lemma sub64_le:
  assumes "i \<le> s" "s < 2 ^ 64"
  shows "sub64 s i = s - i"
proof -
  from assms(1) obtain d where d: "s = i + d" using le_Suc_ex by blast
  have "sub64 s i = (2 ^ 64 + d) mod 2 ^ 64" by (simp add: sub64_def d)
  also have "\<dots> = d mod 2 ^ 64" by (rule mod_add_self1)
  also have "\<dots> = d" using assms(2) d by simp
  finally show ?thesis using d by simp
qed

lemma sub64_wrap: "s < i \<Longrightarrow> i < 2 ^ 64 \<Longrightarrow> sub64 s i = 2 ^ 64 + s - i"
  by (simp add: sub64_def)

lemma xs_trim_ptr_size:
  assumes len: "length x0 = 16" and ts: "strlen ts \<noteq> 0"
    and cow: "xs_cow_lazy_copy h x = Inr (h0, x0, c)"
    and trim: "xs_trim h x ts = Inr (h', x')"
    and ptr: "xs_is_ptr x0"
  shows "xs_size x' \<le> xs_size x0"
proof (rule xs_trim_result [OF ts cow trim])
  fix bs i s1 moved h1 x1 h2 x2 and t :: "byte list"
  assume ld: "load h0 x0 (xs_data x0) (xs_size x0) = Inr bs"
    and i: "i = scan_front (set_bits (replicate 32 0) (take (strlen ts) ts)) bs"
    and s1: "s1 = scan_back (set_bits (replicate 32 0) (take (strlen ts) ts)) bs (xs_size x0)"
    and mv: "load h0 x0 (loc_add (xs_data x0) i) (sub64 s1 i) = Inr moved"
    and st: "store h0 x0 (xs_data x0) moved = Inr (h1, x1)"
    and tz: "(if t \<noteq> [0] then store h1 x1 (loc_add (xs_data x0) (sub64 s1 i)) [0]
              else Inr (h1, x1)) = Inr (h2, x2)"
    and x': "x' = xs_set_size x2 (sub64 s1 i)"
  from ptr obtain a off where d: "xs_data x0 = Mem a off" using xs_data_cases [of x0] by auto
  have n0: "xs_size x0 < 2 ^ 54" using ptr size_field_lt [of x0] by (simp add: xs_size_def)
  have lb: "length bs = xs_size x0" using ld unfolding d by (rule load_mem_length)
  have i_le: "i \<le> xs_size x0" unfolding i using scan_front_le [of _ bs] lb by simp
  have s_le: "s1 \<le> xs_size x0" unfolding s1 by (rule scan_back_le)
  have mv': "load h0 x0 (Mem a (off + i)) (sub64 s1 i) = Inr moved" using mv unfolding d by simp
  have slen: "sub64 s1 i \<le> xs_size x0"
  proof (cases "i \<le> s1")
    case True
    then have "sub64 s1 i = s1 - i" using s_le n0 by (intro sub64_le) simp_all
    then show ?thesis using s_le by simp
  next
    case False
    then have "sub64 s1 i = 2 ^ 64 + s1 - i" using i_le n0 by (intro sub64_wrap) simp_all
    moreover have "off + i + sub64 s1 i < 2 ^ 64" using load_mem_bound [OF mv'] .
    ultimately show ?thesis using False by simp
  qed
  have "x1 = x0" using st unfolding d by (rule store_mem_result)
  moreover have "x2 = x1"
  proof (cases "t \<noteq> [0]")
    case True
    with tz have "store h1 x1 (Mem a (off + sub64 s1 i)) [0] = Inr (h2, x2)"
      unfolding d by simp
    then show ?thesis by (rule store_mem_result)
  next
    case False
    with tz show ?thesis by simp
  qed
  ultimately have "x' = set_size_field x0 (sub64 s1 i mod 2 ^ 54)"
    unfolding x' using ptr by (simp add: xs_set_size_def)
  then have "xs_size x' = sub64 s1 i mod 2 ^ 54"
    using set_size_field_fields(1) [OF len] size_field_set_size_field [OF len] ptr
    by (simp add: xs_size_def)
  also have "\<dots> \<le> sub64 s1 i" by simp
  finally show ?thesis using slen by simp
qed

lemma xs_trim_cap_inv:
  assumes len: "length x = 16" and inv: "cap_inv x" and trim: "xs_trim h x ts = Inr (h', x')"
  shows "cap_inv x'"
proof (cases "strlen ts = 0")
  case True
  then show ?thesis using trim inv by (simp add: xs_trim_def)
next
  case False
  from trim False obtain h0 x0 c where cow: "xs_cow_lazy_copy h x = Inr (h0, x0, c)"
    by (auto simp: xs_trim_def bnd_eq_Inr)
  from xs_cow_cases [OF len cow] have l0: "length x0 = 16" using len by auto
  note after = xs_trim_after_cow [OF l0 False cow trim]
  show ?thesis
  proof (cases "xs_is_ptr x0")
    case False
    then show ?thesis using after by (simp add: cap_inv_inline)
  next
    case True
    with xs_cow_cases [OF len cow] have "x0 = x" by auto
    moreover have "xs_size x' \<le> xs_size x0"
      using l0 False cow trim True by (rule xs_trim_ptr_size)
    ultimately show ?thesis using after inv by (simp add: cap_inv_def)
  qed
qed

lemma load_last:
  assumes "length x = 16" "load h x l (n + 1) = Inr bs"
  shows "bs \<noteq> [] \<and> load h x (loc_add l n) 1 = Inr [last bs]"
proof (cases l)
  case (Cell off)
  from assms(2) have b: "off + (n + 1) \<le> 16" "bs = take (n + 1) (drop off x)"
    unfolding Cell using load_cell_result by blast+
  have lb: "length bs = n + 1" using b assms(1) by simp
  then have ne: "bs \<noteq> []" by auto
  have "last bs = bs ! n" using lb ne by (simp add: last_conv_nth)
  also have "\<dots> = x ! (off + n)" using b assms(1) by simp
  finally have "last bs = x ! (off + n)" .
  moreover have "take 1 (drop (off + n) x) = [x ! (off + n)]"
    using b assms(1) by (simp add: take_Suc_conv_app_nth)
  ultimately show ?thesis using ne b by (simp add: Cell load_def)
next
  case (Mem a off)
  from assms(2) obtain sz c where
    b: "blocks h a = Some (sz, c)" "off + (n + 1) \<le> unat sz" "bs = map c [off..<off + (n + 1)]"
    unfolding Mem by (auto simp: load_def split: option.splits if_splits)
  have "bs = map c [off..<off + n] @ [c (off + n)]" using b(3) by simp
  then have "bs \<noteq> []" "last bs = c (off + n)" by simp_all
  then show ?thesis using b by (simp add: Mem load_def)
qed

lemma terminated_last:
  assumes "length q = 16" "terminated h q" "load h q (xs_data q) (xs_size q + 1) = Inr bs"
  shows "bs \<noteq> [] \<and> last bs = 0"
  using load_last [OF assms(1,3)] assms(2) by (simp add: terminated_def)

lemma write_int_result:
  assumes "write_int h p v = Inr h1"
  obtains sz c bs where "blocks h p = Some (sz, c)" "length bs = 4"
    "h1 = h\<lparr>blocks := (blocks h)(p \<mapsto> (sz, write_fun 0 bs c))\<rparr>"
proof -
  from assms obtain sz c where "blocks h p = Some (sz, c)"
    "h1 = h\<lparr>blocks := (blocks h)(p \<mapsto> (sz, write_fun 0 (le_bytes 4 (unat v)) c))\<rparr>"
    by (auto simp: write_int_def store_def bnd_eq_Inr split: option.splits if_splits)
  then show ?thesis using that [of sz c "le_bytes 4 (unat v)"] by simp
qed

lemma terminated_dec_refcnt:
  assumes dec: "xs_dec_refcnt h s = Inr (h1, r)" and t: "terminated h q"
    and med: "xs_repr q = Some Medium \<longrightarrow> ptr_field q \<noteq> ptr_field s"
  shows "terminated h1 q"
proof (cases "xs_is_large_string s")
  case False
  then show ?thesis using dec t by (simp add: xs_dec_refcnt_def)
next
  case True
  with dec obtain v where w: "write_int h (ptr_field s) v = Inr h1"
    by (auto simp: xs_dec_refcnt_def bnd_eq_Inr)
  from write_int_result [OF w] obtain sz c bs where
    b: "blocks h (ptr_field s) = Some (sz, c)" "length bs = 4"
    and h1: "h1 = h\<lparr>blocks := (blocks h)(ptr_field s \<mapsto> (sz, write_fun 0 bs c))\<rparr>"
    by blast
  show ?thesis
  proof (cases "xs_is_ptr q")
    case False
    then show ?thesis using t by (simp add: terminated_def xs_data_def load_def)
  next
    case ptr: True
    show ?thesis
    proof (cases "ptr_field q = ptr_field s")
      case False
      then show ?thesis using t ptr
        by (cases "xs_is_large_string q") (simp_all add: terminated_def xs_data_def load_def h1)
    next
      case same: True
      with med ptr have lq: "xs_is_large_string q" by (auto simp: xs_repr_def split: if_splits)
      have w: "write_fun 0 bs c (4 + xs_size q) = c (4 + xs_size q)"
        using b(2) by (simp add: write_fun_def)
      have u: "[4 + xs_size q..<5 + xs_size q] = [4 + xs_size q]"
        by (simp add: upt_conv_Cons)
      show ?thesis using t ptr lq same b(1)
        by (simp add: terminated_def xs_data_def load_def h1 u w split: if_splits)
    qed
  qed
qed

lemma write_at_term_keeps_inline:
  assumes "length x = 16" "\<not> xs_is_ptr x" "off + length bs \<le> 16" "bs \<noteq> []" "last bs = 0"
  shows "length (write_at off bs x) = 16" "\<not> xs_is_ptr (write_at off bs x)"
proof -
  show "length (write_at off bs x) = 16" using assms by (simp add: write_at_length)
  show "\<not> xs_is_ptr (write_at off bs x)"
  proof (cases "off + length bs = 16")
    case True
    have o: "off \<le> 15" using True assms(4) by (cases bs) simp_all
    have "15 < off + length bs" using True by simp
    from write_at_nth_in [OF assms(1,3) o this]
    have "write_at off bs x ! 15 = bs ! (15 - off)" .
    also have "15 - off = length bs - 1" using True o by simp
    also have "bs ! (length bs - 1) = last bs" using assms(4) by (simp add: last_conv_nth)
    finally show ?thesis using assms(5) by (simp add: xs_is_ptr_def)
  next
    case False
    then have "off + length bs \<le> 15" using assms(3) by simp
    then show ?thesis using assms by (simp add: write_at_keeps_inline)
  qed
qed

lemma two_stores_inline:
  assumes len: "length c0 = 16" and inl: "\<not> xs_is_ptr c0"
    and s1: "store ha c0 (Cell pres) b1 = Inr (hb, c1)"
    and s2: "store hb c1 (Cell 0) b2 = Inr (hc, c2)"
    and l1: "length b1 \<le> sz" and l2: "length b2 \<le> pres" and l3: "pres + sz \<le> 15"
  shows "hc = ha \<and> length c2 = 16 \<and> \<not> xs_is_ptr c2"
proof -
  from store_cell_result [OF s1] have 1: "hb = ha" "c1 = write_at pres b1 c0" by simp_all
  have "pres + length b1 \<le> 15" using l1 l3 by simp
  from write_at_keeps_inline [OF len inl this]
  have c1: "length c1 = 16" "\<not> xs_is_ptr c1" by (simp_all add: 1)
  from store_cell_result [OF s2] have 2: "hc = hb" "c2 = write_at 0 b2 c1" by simp_all
  have "0 + length b2 \<le> 15" using l2 l3 by simp
  from write_at_keeps_inline [OF c1 this]
  show ?thesis by (simp add: 1 2)
qed

lemma third_store_inline:
  assumes len: "length c2 = 16" and inl: "\<not> xs_is_ptr c2"
    and s3: "store hc c2 (Cell off) b3 = Inr (he, c3)"
    and l3: "b3 \<noteq> []" "last b3 = 0"
  shows "he = hc \<and> length c3 = 16 \<and> \<not> xs_is_ptr c3"
proof -
  from store_cell_result [OF s3]
  have 3: "he = hc" "c3 = write_at off b3 c2" "off + length b3 \<le> 16" by simp_all
  from write_at_term_keeps_inline [OF len inl 3(3) l3] show ?thesis by (simp add: 3)
qed

lemma xs_concat_inplace_result:
  assumes "xs_cow_lazy_copy h s = Inr (h0, s0, c)"
    and "xs_size s + xs_size p + xs_size q \<le> xs_capacity s"
    and "xs_concat h s p q = Inr (h', s')"
  obtains b1 h1 s1 b2 h2 s2 b3 s3 where
    "load h0 s0 (xs_data s0) (xs_size s) = Inr b1"
    "store h0 s0 (loc_add (xs_data s0) (xs_size p)) b1 = Inr (h1, s1)"
    "load h1 p (xs_data p) (xs_size p) = Inr b2"
    "store h1 s1 (xs_data s0) b2 = Inr (h2, s2)"
    "load h2 q (xs_data q) (xs_size q + 1) = Inr b3"
    "store h2 s2 (loc_add (xs_data s0) (xs_size p + xs_size s)) b3 = Inr (h', s3)"
    "s' = (if xs_is_ptr s3
           then set_size_field s3 ((xs_size s + xs_size p + xs_size q) mod 2 ^ 54)
           else set_space_left s3 (sub64 15 (xs_size s + xs_size p + xs_size q) mod 16))"
  using assms
  by (auto simp: xs_concat_def Let_def bnd_eq_Inr split: if_splits)

lemma xs_concat_grow_result:
  assumes "xs_cow_lazy_copy h s = Inr (h0, s0, c)"
    and "\<not> xs_size s + xs_size p + xs_size q \<le> xs_capacity s"
    and "xs_concat h s p q = Inr (h', s')"
  obtains h1 t1 b1 h2 t2 b2 h3 t3 b3 h4 t4 s5 where
    "xs_grow h0 xs_literal_empty (xs_size s + xs_size p + xs_size q) = Inr (h1, t1)"
    "load h1 s0 (xs_data s0) (xs_size s) = Inr b1"
    "store h1 t1 (loc_add (xs_data t1) (xs_size p)) b1 = Inr (h2, t2)"
    "load h2 p (xs_data p) (xs_size p) = Inr b2"
    "store h2 t2 (xs_data t1) b2 = Inr (h3, t3)"
    "load h3 q (xs_data q) (xs_size q + 1) = Inr b3"
    "store h3 t3 (loc_add (xs_data t1) (xs_size p + xs_size s)) b3 = Inr (h4, t4)"
    "xs_free h4 s0 = Inr (h', s5)"
    "s' = set_size_field t4 ((xs_size s + xs_size p + xs_size q) mod 2 ^ 54)"
  using assms
  by (auto simp: xs_concat_def Let_def bnd_eq_Inr split: if_splits)

lemma three_stores_inline:
  assumes len: "length c0 = 16" and inl: "\<not> xs_is_ptr c0" and lq: "length q = 16"
    and tq: "terminated ha q"
    and l1: "load ha c (xs_data c) sz = Inr b1"
    and s1: "store ha c0 (Cell pres) b1 = Inr (hb, c1)"
    and l2: "load hb p (xs_data p) pres = Inr b2"
    and s2: "store hb c1 (Cell 0) b2 = Inr (hc, c2)"
    and l3: "load hc q (xs_data q) (xs_size q + 1) = Inr b3"
    and s3: "store hc c2 (Cell (pres + sz)) b3 = Inr (he, c3)"
  shows "he = ha \<and> length c3 = 16 \<and> \<not> xs_is_ptr c3"
proof -
  from store_cell_result [OF s1] store_cell_result [OF s2] have hc: "hc = ha" by simp
  from terminated_last [OF lq tq l3 [unfolded hc]] have b3: "b3 \<noteq> []" "last b3 = 0" by simp_all
  from store_cell_result [OF s3] have "pres + sz + length b3 \<le> 16" by simp
  moreover have "1 \<le> length b3" using b3(1) by (cases b3) simp_all
  ultimately have le: "pres + sz \<le> 15" by simp
  from two_stores_inline [OF len inl s1 s2 load_length [OF l1] load_length [OF l2] le]
  have c2: "length c2 = 16" "\<not> xs_is_ptr c2" by simp_all
  from third_store_inline [OF c2 s3 b3] show ?thesis by (simp add: hc)
qed

lemma three_stores_mem:
  assumes "xs_is_ptr c0"
    and "store ha c0 (loc_add (xs_data c0) k1) b1 = Inr (hb, c1)"
    and "store hb c1 (xs_data c0) b2 = Inr (hc, c2)"
    and "store hc c2 (loc_add (xs_data c0) k3) b3 = Inr (he, c3)"
  shows "c3 = c0"
proof -
  from assms(1) obtain a off where d: "xs_data c0 = Mem a off"
    using xs_data_cases [of c0] by blast
  from assms(2-4) show ?thesis unfolding d loc_add.simps
    by (auto dest!: store_mem_result)
qed

lemma xs_concat_cap_inv:
  assumes ls: "length s = 16" and lq: "length q = 16" and tq: "terminated h q"
    and med: "xs_repr q = Some Medium \<longrightarrow> ptr_field q \<noteq> ptr_field s"
    and res: "xs_concat h s p q = Inr (h', s')"
  shows "cap_inv s'"
proof -
  from res obtain h0 s0 c where cow: "xs_cow_lazy_copy h s = Inr (h0, s0, c)"
    by (auto simp: xs_concat_def Let_def bnd_eq_Inr)
  from xs_cow_cases [OF ls cow]
  have cs: "(h0 = h \<and> s0 = s) \<or>
      (\<not> xs_is_ptr s0 \<and> length s0 = 16 \<and> (\<exists>r. xs_dec_refcnt h s = Inr (h0, r)))" .
  have t0: "terminated h0 q" using cs tq terminated_dec_refcnt [OF _ tq med] by auto
  have l0: "length s0 = 16" using cs ls by auto
  have ptr0: "xs_is_ptr s0 \<Longrightarrow> s0 = s" using cs by auto
  define total where "total = xs_size s + xs_size p + xs_size q"
  show ?thesis
  proof (cases "total \<le> xs_capacity s")
    case True
    show ?thesis
    proof (rule xs_concat_inplace_result [OF cow True [unfolded total_def] res])
      fix b1 h1 s1 b2 h2 s2 b3 s3
      assume l1: "load h0 s0 (xs_data s0) (xs_size s) = Inr b1"
        and s1: "store h0 s0 (loc_add (xs_data s0) (xs_size p)) b1 = Inr (h1, s1)"
        and l2: "load h1 p (xs_data p) (xs_size p) = Inr b2"
        and s2: "store h1 s1 (xs_data s0) b2 = Inr (h2, s2)"
        and l3: "load h2 q (xs_data q) (xs_size q + 1) = Inr b3"
        and s3: "store h2 s2 (loc_add (xs_data s0) (xs_size p + xs_size s)) b3 = Inr (h', s3)"
        and s': "s' = (if xs_is_ptr s3
           then set_size_field s3 ((xs_size s + xs_size p + xs_size q) mod 2 ^ 54)
           else set_space_left s3 (sub64 15 (xs_size s + xs_size p + xs_size q) mod 16))"
      show "cap_inv s'"
      proof (cases "xs_is_ptr s0")
        case ptr: True
        from three_stores_mem [OF ptr s1 s2 s3] ptr0 [OF ptr] have e: "s3 = s" by simp
        have p: "xs_is_ptr s" using ptr ptr0 by simp
        have s'': "s' = set_size_field s (total mod 2 ^ 54)"
          using s' e p by (simp add: total_def)
        have "total mod 2 ^ 54 \<le> total" by simp
        then show ?thesis
          using True p set_size_field_fields [OF ls, of "total mod 2 ^ 54"]
            size_field_set_size_field [OF ls, of "total mod 2 ^ 54"]
          by (simp add: cap_inv_def xs_size_def xs_capacity_def s'')
      next
        case inl: False
        then have d: "xs_data s0 = Cell 0" by (simp add: xs_data_def)
        from three_stores_inline [OF l0 inl lq t0 l1 s1 [unfolded d loc_add.simps add_0]
            l2 s2 [unfolded d] l3 s3 [unfolded d loc_add.simps add_0]]
        have c3: "length s3 = 16" "\<not> xs_is_ptr s3" by simp_all
        have "\<not> xs_is_ptr s'" using s' c3 set_space_left_fields(2) [OF c3(1)] by simp
        then show ?thesis by (rule cap_inv_inline)
      qed
    qed
  next
    case False
    show ?thesis
    proof (rule xs_concat_grow_result [OF cow False [unfolded total_def] res])
      fix h1 t1 b1 h2 t2 b2 h3 t3 b3 h4 t4 s5
      assume g: "xs_grow h0 xs_literal_empty (xs_size s + xs_size p + xs_size q) = Inr (h1, t1)"
        and l1: "load h1 s0 (xs_data s0) (xs_size s) = Inr b1"
        and s1: "store h1 t1 (loc_add (xs_data t1) (xs_size p)) b1 = Inr (h2, t2)"
        and l2: "load h2 p (xs_data p) (xs_size p) = Inr b2"
        and s2: "store h2 t2 (xs_data t1) b2 = Inr (h3, t3)"
        and l3: "load h3 q (xs_data q) (xs_size q + 1) = Inr b3"
        and s3: "store h3 t3 (loc_add (xs_data t1) (xs_size p + xs_size s)) b3 = Inr (h4, t4)"
        and s': "s' = set_size_field t4 ((xs_size s + xs_size p + xs_size q) mod 2 ^ 54)"
      from xs_grow_cases [OF g]
      have gc: "(t1 = xs_literal_empty \<and> h1 = h0) \<or> (\<exists>p. t1 = medium_cell p) \<or>
          (\<exists>p. t1 = large_cell p)"
        by (auto simp: xs_capacity_def)
      show "cap_inv s'"
      proof (cases "xs_is_ptr t1")
        case ptr: True
        from three_stores_mem [OF ptr s1 s2 s3] have e: "t4 = t1" .
        have "length t1 = 16" "capacity_field t1 = 60" using gc ptr by auto
        then show ?thesis unfolding s' e using ptr by (intro cap_inv_set_size_field)
      next
        case inl: False
        then have e: "t1 = xs_literal_empty" "h1 = h0" using gc by auto
        have d: "xs_data t1 = Cell 0" using inl by (simp add: xs_data_def)
        have lt: "length t1 = 16" by (simp add: e)
        from three_stores_inline [OF lt inl lq t0 [folded e(2)] l1
            s1 [unfolded d loc_add.simps add_0] l2 s2 [unfolded d] l3
            s3 [unfolded d loc_add.simps add_0]]
        have c4: "length t4 = 16" "\<not> xs_is_ptr t4" by simp_all
        have "\<not> xs_is_ptr s'" using c4 set_size_field_fields(1) [OF c4(1)] by (simp add: s')
        then show ?thesis by (rule cap_inv_inline)
      qed
    qed
  qed
qed


text \<open>
  Where the invariant is kept.  Each operation that returns leaves a cell whose capacity
  covers its length: \<open>xs_new\<close> and \<open>xs_free\<close> on any cell; \<open>xs_cpy\<close> from a source and
  \<open>xs_grow\<close> and \<open>xs_trim\<close> of a cell that satisfy the invariant; \<open>xs_concat\<close> when
  the byte after the content of the suffix is 0 and a Medium suffix does not share the
  buffer of the string.
\<close>

lemma cap_inv_preserved:
  "(\<forall>h x p h' x'. xs_new h x p = Inr (h', x') \<longrightarrow> cap_inv x') \<and>
   (\<forall>h x h' x'. xs_free h x = Inr (h', x') \<longrightarrow> cap_inv x') \<and>
   (\<forall>h dest src h' x'. cap_inv src \<and> xs_cpy h dest src = Inr (h', x') \<longrightarrow> cap_inv x') \<and>
   (\<forall>h x n h' x'. cap_inv x \<and> xs_grow h x n = Inr (h', x') \<longrightarrow> cap_inv x') \<and>
   (\<forall>h s p q h' s'.
      length s = 16 \<and> length q = 16 \<and> terminated h q \<and>
      (xs_repr q = Some Medium \<longrightarrow> ptr_field q \<noteq> ptr_field s) \<and>
      xs_concat h s p q = Inr (h', s') \<longrightarrow> cap_inv s') \<and>
   (\<forall>h x ts h' x'.
      length x = 16 \<and> cap_inv x \<and> xs_trim h x ts = Inr (h', x') \<longrightarrow> cap_inv x')"
proof (intro conjI allI impI)
  fix h x p h' x'
  assume "xs_new h x p = Inr (h', x')"
  then show "cap_inv x'" by (rule xs_new_cap_inv)
next
  fix h x h' x'
  assume "xs_free h x = Inr (h', x')"
  then show "cap_inv x'" by (rule xs_free_cap_inv)
next
  fix h dest src h' x'
  assume "cap_inv src \<and> xs_cpy h dest src = Inr (h', x')"
  then show "cap_inv x'" using xs_cpy_cap_inv by blast
next
  fix h x n h' x'
  assume "cap_inv x \<and> xs_grow h x n = Inr (h', x')"
  then show "cap_inv x'" using xs_grow_cap_inv by blast
next
  fix h s p q h' s'
  assume a: "length s = 16 \<and> length q = 16 \<and> terminated h q \<and>
      (xs_repr q = Some Medium \<longrightarrow> ptr_field q \<noteq> ptr_field s) \<and>
      xs_concat h s p q = Inr (h', s')"
  show "cap_inv s'"
    by (rule xs_concat_cap_inv [of s q h p h' s']) (use a in simp_all)
next
  fix h x ts h' x'
  assume a: "length x = 16 \<and> cap_inv x \<and> xs_trim h x ts = Inr (h', x')"
  show "cap_inv x'"
    by (rule xs_trim_cap_inv [of x h ts h' x']) (use a in simp_all)
qed

subsection \<open>Concatenation with a suffix that has no terminator\<close>





end
